theory Spec2Isabelle
  imports Main "HOL-Library.Sublist"
begin

section \<open>String primitives of the host language\<close>

text \<open>
  Strings are character lists and indices are integers, because the search
  functions of the host language answer \<open>-1\<close> when nothing is found.
  \<open>indexOf\<close> gives the first position at which the pattern starts,
  \<open>lastIndexOf\<close> the last one.
\<close>

fun indexOf_from :: "string \<Rightarrow> string \<Rightarrow> int \<Rightarrow> int" where
  "indexOf_from [] pat i = (if pat = [] then i else - 1)"
| "indexOf_from (c # cs) pat i =
     (if prefix pat (c # cs) then i else indexOf_from cs pat (i + 1))"

definition indexOf :: "string \<Rightarrow> string \<Rightarrow> int" where
  "indexOf s pat = indexOf_from s pat 0"

fun lastIndexOf_from :: "string \<Rightarrow> string \<Rightarrow> int \<Rightarrow> int" where
  "lastIndexOf_from [] pat i = (if pat = [] then i else - 1)"
| "lastIndexOf_from (c # cs) pat i =
     (let later = lastIndexOf_from cs pat (i + 1)
      in if 0 \<le> later then later else if prefix pat (c # cs) then i else - 1)"

definition lastIndexOf :: "string \<Rightarrow> string \<Rightarrow> int" where
  "lastIndexOf s pat = lastIndexOf_from s pat 0"

text \<open>
  \<open>substring\<close> clamps both bounds into the string and swaps them when they
  come in the wrong order; \<open>substr\<close> with one argument runs to the end of the
  string and counts a negative start from the end.
\<close>

definition substring :: "string \<Rightarrow> int \<Rightarrow> int \<Rightarrow> string" where
  "substring s start end =
     (let len = int (length s);
          a = max 0 (min start len);
          b = max 0 (min end len);
          lo = min a b;
          hi = max a b
      in take (nat (hi - lo)) (drop (nat lo) s))"

definition substr :: "string \<Rightarrow> int \<Rightarrow> string" where
  "substr s start =
     (let len = int (length s);
          from = (if start < 0 then max 0 (len + start) else min start len)
      in drop (nat from) s)"

text \<open>Lower-casing acts on the letters A to Z and leaves every other character alone.\<close>

definition toLowerCase_char :: "char \<Rightarrow> char" where
  "toLowerCase_char c =
     (case map_of (zip ''ABCDEFGHIJKLMNOPQRSTUVWXYZ'' ''abcdefghijklmnopqrstuvwxyz'') c of
        Some l \<Rightarrow> l
      | None \<Rightarrow> c)"

definition toLowerCase :: "string \<Rightarrow> string" where
  "toLowerCase s = map toLowerCase_char s"

text \<open>Decimal rendering of a natural number, as string concatenation does for a length.\<close>

definition digit_char :: "nat \<Rightarrow> char" where
  "digit_char d = ''0123456789'' ! (d mod 10)"

fun number_toString :: "nat \<Rightarrow> string" where
  "number_toString n =
     (if n < 10 then [digit_char n]
      else number_toString (n div 10) @ [digit_char (n mod 10)])"

declare number_toString.simps [simp del]

section \<open>Data model\<close>

text \<open>
  The table type is declared outside the datasource, so it is a type
  parameter \<open>'tbl\<close>. A table slot holds \<open>'tbl option\<close>: \<open>None\<close> stands for a
  missing (falsy) table, which the cache lookup tests for explicitly.
\<close>

record 'tbl CachedTable =
  path :: string
  timestamp :: nat
  table :: "'tbl option"

record jsonData =
  timeInterval :: "string option"
  type :: "string option"

record instanceSettings =
  jsonData :: "jsonData option"

text \<open>
  The four backend classes and the three parser classes live in other modules.
  An object of such a class is the class tag with the settings it was built
  from; what its methods answer is supplied by the record of collaborators
  below. \<open>PlainObject\<close> is what \<open>Object.create\<close> builds: an object that is not
  a backend at all.
\<close>

datatype FileSystem =
    LocalFileSystem instanceSettings
  | NginxFileSystem instanceSettings
  | S3FileSystem instanceSettings
  | UnknownFileSystem instanceSettings
  | PlainObject instanceSettings

datatype ResponseParser =
    CSVResponseParser instanceSettings
  | AvroResponseParser instanceSettings
  | JSONResponseParser instanceSettings

text \<open>
  A value that is thrown or that a promise rejects with; any value can be. A
  \<open>TypeError\<close> is raised by the runtime itself. A \<open>Reason\<close> comes from a
  collaborator (an error object, a request failure record or a string) and is
  seen by the datasource only through its string conversion and through the
  truthiness of its \<open>cancelled\<close> and \<open>err\<close> members. \<open>Undefined\<close> and \<open>Null\<close> are
  the two values that have no members at all: a promise rejected without an
  argument carries \<open>Undefined\<close>.
\<close>

datatype JSError =
    TypeError string
  | Reason string bool bool
  | Undefined
  | Null

fun err_toString :: "JSError \<Rightarrow> string" where
  "err_toString (TypeError m) = ''TypeError: '' @ m"
| "err_toString (Reason s c e) = s"
| "err_toString Undefined = ''undefined''"
| "err_toString Null = ''null''"

text \<open>
  Reading the member \<open>m\<close> of such a value and taking its truthiness. On
  \<open>Undefined\<close> and \<open>Null\<close> the read itself throws; an error object of the
  runtime has neither \<open>cancelled\<close> nor \<open>err\<close>.
\<close>

fun read_member :: "JSError \<Rightarrow> string \<Rightarrow> JSError + bool" where
  "read_member Undefined m = Inl (TypeError (''Cannot read property '' @ m @ '' of undefined''))"
| "read_member Null m = Inl (TypeError (''Cannot read property '' @ m @ '' of null''))"
| "read_member (TypeError msg) m = Inr False"
| "read_member (Reason s c e) m =
     Inr (if m = ''cancelled'' then c else if m = ''err'' then e else False)"

text \<open>
  What a call gives back at once: it throws, or it returns a promise, which
  settles to a rejection (\<open>Inl\<close>) or to a value (\<open>Inr\<close>).
\<close>

datatype 'a Returned =
    Throws JSError
  | Promise "JSError + 'a"

record Response =
  headers :: "string \<rightharpoonup> string"
  body :: string

record DirectoryInfo =
  files :: "string list"

record 'dp SeriesInfo =
  order :: "string list"
  series :: "string \<rightharpoonup> 'dp"

record QueryTarget =
  path :: "string option"
  changes :: bool

record QueryOptions =
  targets :: "QueryTarget list"
  scopedVars :: "string \<rightharpoonup> string"

record 'dp SeriesEntry =
  target :: string
  alias' :: string
  datapoints :: "'dp option"

text \<open>
  What one target resolves to (the raw table, or the array of series entries),
  and an element of the flattened response.
\<close>

datatype ('tbl, 'dp) TargetData =
    Raw "'tbl option"
  | Series "'dp SeriesEntry list"

datatype ('tbl, 'dp) Item =
    TableItem "'tbl option"
  | EntryItem "'dp SeriesEntry"

record ('tbl, 'dp) QueryResult =
  data :: "('tbl, 'dp) Item list"

record TestResult =
  status :: string
  message :: string

record FileSystemDatasource =
  interval :: "string option"
  fs :: FileSystem
  parsers :: "string \<rightharpoonup> ResponseParser"

text \<open>
  The collaborators the datasource calls but does not define: the backends'
  \<open>fetch\<close> and \<open>list\<close> (a settled promise is \<open>Inl\<close> reason or \<open>Inr\<close> value),
  the parsers' \<open>parse\<close>, the changes transform, the template service, and
  whether \<open>Object.create\<close> accepts its arguments.
\<close>

record ('tbl, 'dp) Collaborators =
  fs_fetch :: "FileSystem \<Rightarrow> string \<Rightarrow> bool \<Rightarrow> JSError + Response"
  fs_list :: "FileSystem \<Rightarrow> string \<Rightarrow> JSError + DirectoryInfo"
  parse :: "ResponseParser \<Rightarrow> Response \<Rightarrow> string option \<Rightarrow> JSError + 'tbl option"
  processChanges :: "'tbl option \<Rightarrow> JSError + 'dp SeriesInfo"
  templateSrv_replace :: "string \<Rightarrow> (string \<rightharpoonup> string) \<Rightarrow> string"
  Object_create :: "instanceSettings \<Rightarrow> JSError option"

text \<open>
  The state shared by every datasource object of the process: the static cache
  and, for the statements about what is and is not called, the log of calls
  made to backends.
\<close>

datatype BackendCall =
    FetchCall FileSystem string bool
  | ListCall FileSystem string

record 'tbl World =
  cache :: "string \<rightharpoonup> 'tbl CachedTable"
  calls :: "BackendCall list"

section \<open>Construction\<close>

text \<open>
  The registry is an object literal with the three keys \<open>local\<close>, \<open>nginx\<close> and
  \<open>s3\<close>; each entry has a display name and a \<open>create\<close> function.
\<close>

datatype Builder = Builder string "instanceSettings \<Rightarrow> FileSystem"

definition registry :: "(string \<times> Builder) list" where
  "registry =
     [(''local'', Builder ''Local (host)'' LocalFileSystem),
      (''nginx'', Builder ''NGINX (json)'' NginxFileSystem),
      (''s3'', Builder ''Amazon S3'' S3FileSystem)]"

text \<open>
  Reading \<open>registry[type]\<close> is a property read on an ordinary object: a key
  that is not an own property is looked up on the prototype of every object
  literal, whose members are listed here. Such a member is a function or an
  object, hence truthy. Of these only \<open>constructor\<close> (the \<open>Object\<close> function)
  has a member called \<open>create\<close>.
\<close>

definition Object_prototype :: "string list" where
  "Object_prototype =
     [''constructor'', ''hasOwnProperty'', ''isPrototypeOf'', ''propertyIsEnumerable'',
      ''toLocaleString'', ''toString'', ''valueOf'', ''__proto__'',
      ''__defineGetter__'', ''__defineSetter__'', ''__lookupGetter__'', ''__lookupSetter__'']"

datatype Property = Own Builder | Inherited string

definition registry_get :: "string \<Rightarrow> Property option" where
  "registry_get key =
     (case map_of registry key of
        Some b \<Rightarrow> Some (Own b)
      | None \<Rightarrow> if key \<in> set Object_prototype then Some (Inherited key) else None)"

text \<open>A property key that is absent (\<open>undefined\<close>) is converted to the string \<open>undefined\<close>.\<close>

definition property_key :: "string option \<Rightarrow> string" where
  "property_key k = (case k of None \<Rightarrow> ''undefined'' | Some s \<Rightarrow> s)"

text \<open>
  The call \<open>builder.create(instanceSettings, backendSrv)\<close>: an own entry runs its
  \<open>create\<close>; the inherited \<open>constructor\<close> runs \<open>Object.create\<close>, which throws or
  builds a plain object; any other inherited member has no \<open>create\<close>, and
  calling the missing member throws.
\<close>

definition builder_create ::
  "('tbl, 'dp) Collaborators \<Rightarrow> Property \<Rightarrow> instanceSettings \<Rightarrow> JSError + FileSystem" where
  "builder_create X builder instanceSettings =
     (case builder of
        Own (Builder name create) \<Rightarrow> Inr (create instanceSettings)
      | Inherited k \<Rightarrow>
          if k = ''constructor'' then
            (case Object_create X instanceSettings of
               Some e \<Rightarrow> Inl e
             | None \<Rightarrow> Inr (PlainObject instanceSettings))
          else Inl (TypeError ''builder.create is not a function''))"

definition constructor ::
  "('tbl, 'dp) Collaborators \<Rightarrow> instanceSettings \<Rightarrow> JSError + FileSystemDatasource" where
  "constructor X instanceSettings =
     (let safeJsonData =
            (case jsonData instanceSettings of
               Some j \<Rightarrow> j
             | None \<Rightarrow> \<lparr>timeInterval = None, type = None\<rparr>);
          builder = registry_get (property_key (type safeJsonData));
          made =
            (case builder of
               Some b \<Rightarrow> builder_create X b instanceSettings
             | None \<Rightarrow> Inr (UnknownFileSystem instanceSettings))
      in case made of
           Inl e \<Rightarrow> Inl e
         | Inr f \<Rightarrow>
             Inr \<lparr>interval = timeInterval safeJsonData,
                  fs = f,
                  parsers =
                    [''csv'' \<mapsto> CSVResponseParser instanceSettings,
                     ''avro'' \<mapsto> AvroResponseParser instanceSettings,
                     ''json'' \<mapsto> JSONResponseParser instanceSettings]\<rparr>)"

section \<open>Cache-or-fetch\<close>

text \<open>The extension of a path, as the lines before the fetch compute it.\<close>

definition extension :: "string \<Rightarrow> string" where
  "extension p =
     (let ext = [];
          norm = p;
          idx = lastIndexOf norm ''?'';
          norm = (if 0 < idx then substring p 0 idx else norm);
          idx = lastIndexOf norm ''#'';
          norm = (if 0 < idx then substring p 0 idx else norm);
          idx = lastIndexOf norm ''.'';
          ext = (if 0 < idx then toLowerCase (substr norm (idx + 1)) else ext)
      in ext)"

text \<open>
  The synchronous part of \<open>_fetchOrUseCached\<close>: either the promise is already
  resolved with the cached table, or \<open>fetch\<close> has been called on the backend
  and its promise (with the outcome it will settle to) is pending.
\<close>

datatype 'tbl Started =
    Resolved "'tbl option"
  | Fetching bool "JSError + Response"

definition fetchOrUseCached_begin ::
  "('tbl, 'dp) Collaborators \<Rightarrow> FileSystemDatasource \<Rightarrow> string \<Rightarrow> 'tbl World
     \<Rightarrow> 'tbl Started \<times> 'tbl World" where
  "fetchOrUseCached_begin X this p w =
     (case Option.bind (cache w p) table of
        Some tb \<Rightarrow> (Resolved (Some tb), w)
      | None \<Rightarrow>
          (let isAvro = (extension p = ''avro'');
               isBinary = isAvro
           in (Fetching isAvro (fs_fetch X (fs this) p isBinary),
               w\<lparr>calls := calls w @ [FetchCall (fs this) p isBinary]\<rparr>)))"

text \<open>
  The choice of the parser inside the callback. A content type counts when it
  is present, non-empty and contains \<open>json\<close>.
\<close>

definition select_parser ::
  "FileSystemDatasource \<Rightarrow> string option \<Rightarrow> bool \<Rightarrow> ResponseParser option" where
  "select_parser this contentType isAvro =
     (let parser = parsers this ''csv''
      in if (case contentType of
               None \<Rightarrow> False
             | Some ct \<Rightarrow> ct \<noteq> [] \<and> 0 \<le> indexOf ct ''json'')
         then parsers this ''json''
         else if isAvro then parsers this ''avro''
         else parser)"

text \<open>
  The parser is picked from the content-type header and the avro flag and then
  applied; a missing parser object makes the call of its \<open>parse\<close> throw.
\<close>

definition parse_response ::
  "('tbl, 'dp) Collaborators \<Rightarrow> FileSystemDatasource \<Rightarrow> bool \<Rightarrow> Response
     \<Rightarrow> JSError + 'tbl option" where
  "parse_response X this isAvro res =
     (let contentType = headers res ''content-type''
      in case select_parser this contentType isAvro of
           None \<Rightarrow> Inl (TypeError ''Cannot read property parse of undefined'')
         | Some parser \<Rightarrow> parse X parser res contentType)"

text \<open>
  The callback that runs when the fetch has resolved with \<open>res\<close>. \<open>now\<close> is the
  reading \<open>Date.now()\<close> gives when the entry is built, that is after \<open>parse\<close> has
  returned; when \<open>parse\<close> throws, neither the clock is read nor the cache written.
\<close>

definition fetched ::
  "('tbl, 'dp) Collaborators \<Rightarrow> FileSystemDatasource \<Rightarrow> string \<Rightarrow> bool \<Rightarrow> nat \<Rightarrow> Response
     \<Rightarrow> 'tbl World \<Rightarrow> (JSError + 'tbl option) \<times> 'tbl World" where
  "fetched X this p isAvro now res w =
     (case parse_response X this isAvro res of
        Inl e \<Rightarrow> (Inl e, w)
      | Inr tb \<Rightarrow>
          (let t = \<lparr>CachedTable.path = p, timestamp = now, table = tb\<rparr>
           in (Inr tb, w\<lparr>cache := (cache w)(p \<mapsto> t)\<rparr>)))"

text \<open>One whole call of \<open>_fetchOrUseCached\<close>, from the call to the settled promise.\<close>

definition fetchOrUseCached ::
  "('tbl, 'dp) Collaborators \<Rightarrow> FileSystemDatasource \<Rightarrow> nat \<Rightarrow> string \<Rightarrow> 'tbl World
     \<Rightarrow> (JSError + 'tbl option) \<times> 'tbl World" where
  "fetchOrUseCached X this now p w =
     (case fetchOrUseCached_begin X this p w of
        (Resolved tb, w1) \<Rightarrow> (Inr tb, w1)
      | (Fetching isAvro outcome, w1) \<Rightarrow>
          (case outcome of
             Inl e \<Rightarrow> (Inl e, w1)
           | Inr res \<Rightarrow> fetched X this p isAvro now res w1))"

section \<open>Query\<close>

definition getTimeFilter :: "QueryOptions \<Rightarrow> string" where
  "getTimeFilter options = ''YYYYMMDD''"

text \<open>A path passes the filter when it is present and not the empty string.\<close>

definition truthy_path :: "QueryTarget \<Rightarrow> bool" where
  "truthy_path t = (case path t of None \<Rightarrow> False | Some s \<Rightarrow> s \<noteq> [])"

text \<open>
  The filter and the map of the first statement: every target that is kept is
  paired with its \<open>req\<close>, the path after variable replacement.
\<close>

definition queryTargets ::
  "('tbl, 'dp) Collaborators \<Rightarrow> QueryOptions \<Rightarrow> (QueryTarget \<times> string) list" where
  "queryTargets X options =
     (let timeFilter = getTimeFilter options;
          vars = (scopedVars options)(''range'' \<mapsto> timeFilter)
      in map (\<lambda>t. (t, templateSrv_replace X (case path t of Some s \<Rightarrow> s | None \<Rightarrow> []) vars))
           (filter truthy_path (targets options)))"

text \<open>
  The second callback of a target's chain: with the changes flag the table goes
  through the transform and every name of \<open>order\<close> gives one entry; without it
  the table is passed on.
\<close>

definition changes_callback ::
  "('tbl, 'dp) Collaborators \<Rightarrow> QueryTarget \<Rightarrow> 'tbl option \<Rightarrow> JSError + ('tbl, 'dp) TargetData" where
  "changes_callback X t tb =
     (if changes t then
        (case processChanges X tb of
           Inl e \<Rightarrow> Inl e
         | Inr info \<Rightarrow>
             Inr (Series (map (\<lambda>name. \<lparr>target = name, alias' = name,
                                         datapoints = series info name\<rparr>) (order info))))
      else Inr (Raw tb))"

text \<open>
  The map over the kept targets runs synchronously: every cache lookup and every
  call of \<open>fetch\<close> happens here, in target order, before any callback runs.
\<close>

fun start_queries ::
  "('tbl, 'dp) Collaborators \<Rightarrow> FileSystemDatasource \<Rightarrow> (QueryTarget \<times> string) list \<Rightarrow> 'tbl World
     \<Rightarrow> (QueryTarget \<times> string \<times> 'tbl Started) list \<times> 'tbl World" where
  "start_queries X this [] w = ([], w)"
| "start_queries X this ((t, req) # rest) w =
     (case fetchOrUseCached_begin X this req w of
        (p, w1) \<Rightarrow>
          (case start_queries X this rest w1 of
             (ps, w2) \<Rightarrow> ((t, req, p) # ps, w2)))"

text \<open>One target's chain running to its end at clock reading \<open>now\<close>.\<close>

definition settle ::
  "('tbl, 'dp) Collaborators \<Rightarrow> FileSystemDatasource \<Rightarrow> QueryTarget \<times> string \<times> 'tbl Started \<Rightarrow> nat
     \<Rightarrow> 'tbl World \<Rightarrow> (JSError + ('tbl, 'dp) TargetData) \<times> 'tbl World" where
  "settle X this q now w =
     (case q of
        (t, req, Resolved tb) \<Rightarrow> (changes_callback X t tb, w)
      | (t, req, Fetching isAvro outcome) \<Rightarrow>
          (case outcome of
             Inl e \<Rightarrow> (Inl e, w)
           | Inr res \<Rightarrow>
               (case fetched X this req isAvro now res w of
                  (Inl e, w1) \<Rightarrow> (Inl e, w1)
                | (Inr tb, w1) \<Rightarrow> (changes_callback X t tb, w1))))"

text \<open>
  The chains settle in an order the datasource does not control. A schedule
  lists, in the order of completion, the index of the target whose chain
  settles and the clock reading at that moment. An index out of range or
  already settled is passed over. \<open>Promise.all\<close> keeps the values by index and
  remembers the first rejection; the later chains still run.
\<close>

fun run_schedule ::
  "('tbl, 'dp) Collaborators \<Rightarrow> FileSystemDatasource \<Rightarrow> (QueryTarget \<times> string \<times> 'tbl Started) list
     \<Rightarrow> (nat \<times> nat) list \<Rightarrow> (JSError + ('tbl, 'dp) TargetData) option list \<Rightarrow> JSError option
     \<Rightarrow> 'tbl World
     \<Rightarrow> (JSError + ('tbl, 'dp) TargetData) option list \<times> JSError option \<times> 'tbl World" where
  "run_schedule X this qs [] settled rejection w = (settled, rejection, w)"
| "run_schedule X this qs ((i, now) # rest) settled rejection w =
     (if i < length qs \<and> settled ! i = None then
        (case settle X this (qs ! i) now w of
           (outcome, w1) \<Rightarrow>
             run_schedule X this qs rest (settled[i := Some outcome])
               (case rejection of
                  Some e \<Rightarrow> Some e
                | None \<Rightarrow> (case outcome of Inl e \<Rightarrow> Some e | Inr v \<Rightarrow> None))
               w1)
      else run_schedule X this qs rest settled rejection w)"

text \<open>
  Deep flattening of the array of settled values: an array of series entries is
  spliced in, while a table and an entry are objects, not arrays, and stay
  whole.
\<close>

fun flatten_one :: "('tbl, 'dp) TargetData \<Rightarrow> ('tbl, 'dp) Item list" where
  "flatten_one (Raw tb) = [TableItem tb]"
| "flatten_one (Series es) = map EntryItem es"

definition flattenDeep :: "('tbl, 'dp) TargetData list \<Rightarrow> ('tbl, 'dp) Item list" where
  "flattenDeep vs = concat (map flatten_one vs)"

definition fulfilled :: "(JSError + 'a) option \<Rightarrow> 'a option" where
  "fulfilled s = (case s of Some (Inr v) \<Rightarrow> Some v | _ \<Rightarrow> None)"

text \<open>
  The promise \<open>Promise.all(queries).then(...)\<close>: rejected with the first
  rejection, fulfilled with the flattened values once every chain is
  fulfilled, and \<open>None\<close> (still pending) otherwise.
\<close>

definition Promise_all_then ::
  "(JSError + ('tbl, 'dp) TargetData) option list \<Rightarrow> JSError option
     \<Rightarrow> (JSError + ('tbl, 'dp) QueryResult) option" where
  "Promise_all_then settled rejection =
     (case rejection of
        Some e \<Rightarrow> Some (Inl e)
      | None \<Rightarrow>
          (case those (map fulfilled settled) of
             None \<Rightarrow> None
           | Some vs \<Rightarrow> Some (Inr \<lparr>data = flattenDeep vs\<rparr>)))"

definition query ::
  "('tbl, 'dp) Collaborators \<Rightarrow> FileSystemDatasource \<Rightarrow> (nat \<times> nat) list \<Rightarrow> QueryOptions
     \<Rightarrow> 'tbl World \<Rightarrow> (JSError + ('tbl, 'dp) QueryResult) option \<times> 'tbl World" where
  "query X this schedule options w =
     (let kept = queryTargets X options
      in if length kept = 0 then (Some (Inr \<lparr>data = []\<rparr>), w)
         else
           (case start_queries X this kept w of
              (queries, w1) \<Rightarrow>
                (case run_schedule X this queries schedule
                        (replicate (length queries) None) None w1 of
                   (settled, rejection, w2) \<Rightarrow> (Promise_all_then settled rejection, w2))))"

section \<open>Connectivity test\<close>

text \<open>
  The four backend classes have a \<open>list\<close> method; the plain object that
  \<open>Object.create\<close> builds has none, and calling the missing method throws on the
  spot, before any promise exists.
\<close>

definition has_methods :: "FileSystem \<Rightarrow> bool" where
  "has_methods f = (case f of PlainObject s \<Rightarrow> False | _ \<Rightarrow> True)"

text \<open>
  The handler passed to \<open>catch\<close>. The message is built first; then
  \<open>err.cancelled && err.err\<close> reads \<open>cancelled\<close>, and \<open>err\<close> only when \<open>cancelled\<close>
  is truthy. A read that throws makes the handler throw, and the promise
  \<open>catch\<close> returns is then rejected.
\<close>

definition testDatasource_catch :: "JSError \<Rightarrow> JSError + TestResult" where
  "testDatasource_catch e =
     (let rsp = \<lparr>status = ''error'', message = ''Error: '' @ err_toString e\<rparr>
      in case read_member e ''cancelled'' of
           Inl thrown \<Rightarrow> Inl thrown
         | Inr cancelled \<Rightarrow>
             (case (if cancelled then read_member e ''err'' else Inr False) of
                Inl thrown \<Rightarrow> Inl thrown
              | Inr both \<Rightarrow>
                  Inr (if both
                       then rsp\<lparr>message := ''Error making HTTP request.  Check the javascrit console for more information''\<rparr>
                       else rsp)))"

definition testDatasource ::
  "('tbl, 'dp) Collaborators \<Rightarrow> FileSystemDatasource \<Rightarrow> 'tbl World
     \<Rightarrow> TestResult Returned \<times> 'tbl World" where
  "testDatasource X this w =
     (if \<not> has_methods (fs this) then (Throws (TypeError ''this.fs.list is not a function''), w)
      else
        (let w1 = w\<lparr>calls := calls w @ [ListCall (fs this) []]\<rparr>;
             listed = fs_list X (fs this) [];
             after_then =
               (case listed of
                  Inl e \<Rightarrow> Inl e
                | Inr dir \<Rightarrow>
                    Inr \<lparr>status = ''success'',
                         message = ''Root Contains '' @ number_toString (length (files dir)) @ '' Files''\<rparr>);
             after_catch =
               (case after_then of
                  Inr r \<Rightarrow> Inr r
                | Inl e \<Rightarrow> testDatasource_catch e)
         in (Promise after_catch, w1)))"

section \<open>Outcome of a target and the cache invariant\<close>

text \<open>
  The value part of a target's chain, read off \<open>settle\<close>: the table a started
  target resolves to, and the value its whole chain settles to. Neither depends
  on the state of the cache at completion. \<open>started\<close> is the list of chains a
  query has under way after its synchronous part.
\<close>

definition target_table ::
  "('tbl, 'dp) Collaborators \<Rightarrow> FileSystemDatasource \<Rightarrow> QueryTarget \<times> string \<times> 'tbl Started
     \<Rightarrow> JSError + 'tbl option" where
  "target_table X this q =
     (case q of
        (t, req, Resolved tb) \<Rightarrow> Inr tb
      | (t, req, Fetching isAvro outcome) \<Rightarrow>
          (case outcome of
             Inl e \<Rightarrow> Inl e
           | Inr res \<Rightarrow> parse_response X this isAvro res))"

definition target_outcome ::
  "('tbl, 'dp) Collaborators \<Rightarrow> FileSystemDatasource \<Rightarrow> QueryTarget \<times> string \<times> 'tbl Started
     \<Rightarrow> JSError + ('tbl, 'dp) TargetData" where
  "target_outcome X this q =
     (case target_table X this q of
        Inl e \<Rightarrow> Inl e
      | Inr tb \<Rightarrow> changes_callback X (fst q) tb)"

definition started ::
  "('tbl, 'dp) Collaborators \<Rightarrow> FileSystemDatasource \<Rightarrow> QueryOptions \<Rightarrow> 'tbl World
     \<Rightarrow> (QueryTarget \<times> string \<times> 'tbl Started) list" where
  "started X this options w = fst (start_queries X this (queryTargets X options) w)"

text \<open>The cache invariant: an entry is filed under the path it records.\<close>

definition cache_keyed :: "'tbl World \<Rightarrow> bool" where
  "cache_keyed w = (\<forall>k t. cache w k = Some t \<longrightarrow> CachedTable.path t = k)"

section \<open>The specification's own formulations\<close>

text \<open>
  The normalised extension as the specification words it: cut the path at its
  last question mark when that is not at the front, cut what is left at its
  last hash sign likewise, then take, lower-cased, what follows the last dot
  when that dot is not at the front.
\<close>

definition before_last :: "char \<Rightarrow> string \<Rightarrow> string" where
  "before_last c s = rev (tl (dropWhile (\<lambda>x. x \<noteq> c) (rev s)))"

definition after_last :: "char \<Rightarrow> string \<Rightarrow> string" where
  "after_last c s = rev (takeWhile (\<lambda>x. x \<noteq> c) (rev s))"

definition last_index :: "char \<Rightarrow> string \<Rightarrow> nat option" where
  "last_index c s = (if c \<in> set s then Some (length (before_last c s)) else None)"

definition truncate_at_last :: "char \<Rightarrow> string \<Rightarrow> string" where
  "truncate_at_last c s =
     (case last_index c s of
        Some i \<Rightarrow> if 0 < i then before_last c s else s
      | None \<Rightarrow> s)"

definition normalized_extension :: "string \<Rightarrow> string" where
  "normalized_extension p =
     (let n = truncate_at_last (CHR ''#'') (truncate_at_last (CHR ''?'') p)
      in case last_index (CHR ''.'') n of
           Some i \<Rightarrow> if 0 < i then toLowerCase (after_last (CHR ''.'') n) else []
         | None \<Rightarrow> [])"

text \<open>
  Parser selection as the specification words it: a total function from the
  content type and the extension to a parser kind, delimited text being the
  default.
\<close>

datatype ParserKind = JSON_kind | Avro_kind | Delimited_text

definition parser_kind :: "string option \<Rightarrow> string \<Rightarrow> ParserKind" where
  "parser_kind contentType ext =
     (if (case contentType of None \<Rightarrow> False | Some ct \<Rightarrow> sublist ''json'' ct) then JSON_kind
      else if ext = ''avro'' then Avro_kind
      else Delimited_text)"

fun parser_of_kind :: "instanceSettings \<Rightarrow> ParserKind \<Rightarrow> ResponseParser" where
  "parser_of_kind s JSON_kind = JSONResponseParser s"
| "parser_of_kind s Avro_kind = AvroResponseParser s"
| "parser_of_kind s Delimited_text = CSVResponseParser s"

text \<open>
  The resolved path of a target: its path after the template service has
  replaced the variables, the range variable standing at the fixed time filter.
\<close>

definition resolved_path ::
  "('tbl, 'dp) Collaborators \<Rightarrow> QueryOptions \<Rightarrow> QueryTarget \<Rightarrow> string" where
  "resolved_path X options t =
     templateSrv_replace X (case path t of Some s \<Rightarrow> s | None \<Rightarrow> [])
       ((scopedVars options)(''range'' \<mapsto> ''YYYYMMDD''))"

text \<open>
  What a target contributes to the response, as the specification words it: with
  the changes flag one entry per name of the order list, in that order, named
  after it and carrying the datapoints the series map has for it; without the
  flag the raw table.
\<close>

definition contribution ::
  "('tbl, 'dp) Collaborators \<Rightarrow> QueryTarget \<Rightarrow> 'tbl option \<Rightarrow> ('tbl, 'dp) Item list" where
  "contribution X t tb =
     (if changes t then
        (case processChanges X tb of
           Inl e \<Rightarrow> []
         | Inr info \<Rightarrow>
             map (\<lambda>name. EntryItem \<lparr>target = name, alias' = name,
                                      datapoints = series info name\<rparr>) (order info))
      else [TableItem tb])"

section \<open>A sample installation\<close>

text \<open>
  Concrete collaborators on which the statements below are evaluated. Tables are
  strings and datapoints are lists of numbers here. The backend serves three
  files and rejects every other path; the parsers fail on the body \<open>bad\<close>.
\<close>

definition sample_settings :: instanceSettings where
  "sample_settings = \<lparr>jsonData = Some \<lparr>timeInterval = None, type = Some ''nginx''\<rparr>\<rparr>"

definition sample_fetch :: "FileSystem \<Rightarrow> string \<Rightarrow> bool \<Rightarrow> JSError + Response" where
  "sample_fetch f p binary =
     (if p = ''a.csv'' then Inr \<lparr>headers = [''content-type'' \<mapsto> ''text/csv''], body = ''x,y''\<rparr>
      else if p = ''b.avro'' then Inr \<lparr>headers = Map.empty, body = ''bad''\<rparr>
      else if p = ''c.json''
        then Inr \<lparr>headers = [''content-type'' \<mapsto> ''application/json''], body = ''[7]''\<rparr>
      else Inl (Reason ''NotFound'' False False))"

definition sample_collaborators :: "(string, nat list) Collaborators" where
  "sample_collaborators =
     \<lparr>fs_fetch = sample_fetch,
      fs_list = (\<lambda>f p. Inr \<lparr>files = [''a.csv'', ''b.avro'']\<rparr>),
      parse = (\<lambda>parser res ct. if body res = ''bad'' then Inl (Reason ''FormatError'' False False)
                                else Inr (Some (body res))),
      processChanges = (\<lambda>tb. Inr \<lparr>order = [''x'', ''y''], series = [''x'' \<mapsto> [1, 2]]\<rparr>),
      templateSrv_replace = (\<lambda>s vars. s),
      Object_create = (\<lambda>s. None)\<rparr>"

definition sample_datasource :: FileSystemDatasource where
  "sample_datasource =
     \<lparr>interval = None,
      fs = NginxFileSystem sample_settings,
      parsers =
        [''csv'' \<mapsto> CSVResponseParser sample_settings,
         ''avro'' \<mapsto> AvroResponseParser sample_settings,
         ''json'' \<mapsto> JSONResponseParser sample_settings]\<rparr>"

definition empty_world :: "string World" where
  "empty_world = \<lparr>cache = Map.empty, calls = []\<rparr>"

definition warm_world :: "string World" where
  "warm_world =
     \<lparr>cache = [''a.csv'' \<mapsto> \<lparr>CachedTable.path = ''a.csv'', timestamp = 5, table = Some ''old''\<rparr>],
      calls = []\<rparr>"

definition local_datasource :: FileSystemDatasource where
  "local_datasource = sample_datasource\<lparr>fs := LocalFileSystem sample_settings\<rparr>"

definition mixed_options :: QueryOptions where
  "mixed_options =
     \<lparr>targets = [\<lparr>path = Some ''a.csv'', changes = False\<rparr>,
                 \<lparr>path = Some [], changes = False\<rparr>,
                 \<lparr>path = Some ''c.json'', changes = False\<rparr>,
                 \<lparr>path = Some ''a.csv'', changes = True\<rparr>],
      scopedVars = Map.empty\<rparr>"

definition twice_options :: QueryOptions where
  "twice_options =
     \<lparr>targets = [\<lparr>path = Some ''a.csv'', changes = False\<rparr>,
                 \<lparr>path = Some ''a.csv'', changes = True\<rparr>],
      scopedVars = Map.empty\<rparr>"

definition sample_options :: QueryOptions where
  "sample_options =
     \<lparr>targets = [\<lparr>path = Some ''a.csv'', changes = False\<rparr>,
                 \<lparr>path = Some [], changes = False\<rparr>,
                 \<lparr>path = Some ''a.csv'', changes = True\<rparr>],
      scopedVars = Map.empty\<rparr>"


definition blank_options :: QueryOptions where
  "blank_options =
     \<lparr>targets = [\<lparr>path = None, changes = False\<rparr>, \<lparr>path = Some [], changes = True\<rparr>],
      scopedVars = Map.empty\<rparr>"

section \<open>Auxiliary facts\<close>

subsection \<open>String search\<close>

lemma indexOf_from_sublist:
  "0 \<le> i \<Longrightarrow> (0 \<le> indexOf_from s pat i) = sublist pat s"
proof (induction s arbitrary: i)
  case Nil
  then show ?case by simp
next
  case (Cons c cs)
  then show ?case by (simp add: sublist_Cons_right)
qed

lemma indexOf_sublist: "(0 \<le> indexOf s pat) = sublist pat s"
  by (simp add: indexOf_def indexOf_from_sublist)

lemma before_last_Cons:
  "before_last c (x # xs) = (if c \<in> set xs then x # before_last c xs else [])"
proof (cases "c \<in> set xs")
  case True
  then have "dropWhile (\<lambda>y. y \<noteq> c) (rev xs @ [x]) = dropWhile (\<lambda>y. y \<noteq> c) (rev xs) @ [x]"
    by (intro dropWhile_append1[where x = c]) auto
  moreover have "dropWhile (\<lambda>y. y \<noteq> c) (rev xs) \<noteq> []"
    using True by (simp add: dropWhile_eq_Nil_conv)
  ultimately show ?thesis using True by (simp add: before_last_def)
next
  case False
  then have "dropWhile (\<lambda>y. y \<noteq> c) (rev xs @ [x]) = dropWhile (\<lambda>y. y \<noteq> c) [x]"
    by (intro dropWhile_append2) auto
  then show ?thesis using False by (simp add: before_last_def)
qed

lemma after_last_Cons:
  "after_last c (x # xs) = (if c \<in> set xs then after_last c xs else if x = c then xs else x # xs)"
proof (cases "c \<in> set xs")
  case True
  then have "takeWhile (\<lambda>y. y \<noteq> c) (rev xs @ [x]) = takeWhile (\<lambda>y. y \<noteq> c) (rev xs)"
    by (intro takeWhile_append1[where x = c]) auto
  then show ?thesis using True by (simp add: after_last_def)
next
  case False
  then have "takeWhile (\<lambda>y. y \<noteq> c) (rev xs @ [x]) = rev xs @ takeWhile (\<lambda>y. y \<noteq> c) [x]"
    by (intro takeWhile_append2) auto
  then show ?thesis using False by (simp add: after_last_def)
qed

lemma lastIndexOf_from_char:
  "0 \<le> k \<Longrightarrow>
   lastIndexOf_from s [c] k = (if c \<in> set s then k + int (length (before_last c s)) else - 1)"
proof (induction s arbitrary: k)
  case Nil
  then show ?case by simp
next
  case (Cons x xs)
  then show ?case by (auto simp: before_last_Cons Let_def)
qed

lemma lastIndexOf_char:
  "lastIndexOf s [c] = (case last_index c s of Some i \<Rightarrow> int i | None \<Rightarrow> - 1)"
  by (simp add: lastIndexOf_def lastIndexOf_from_char last_index_def)

lemma before_after_last:
  "c \<in> set s \<Longrightarrow> s = before_last c s @ c # after_last c s"
  by (induction s) (auto simp: before_last_Cons after_last_Cons)

lemma last_not_in_after: "c \<notin> set (after_last c s)"
  by (simp add: after_last_def) (metis (mono_tags, lifting) set_takeWhileD)

lemma substring_take: "0 \<le> i \<Longrightarrow> substring s 0 i = take (nat i) s"
  by (auto simp: substring_def Let_def min_def max_def)

lemma substr_drop: "0 \<le> i \<Longrightarrow> substr s i = drop (nat i) s"
  by (auto simp: substr_def Let_def min_def max_def)

lemma take_before_last: "c \<in> set s \<Longrightarrow> take (length (before_last c s)) s = before_last c s"
  using before_after_last[of c s] by (metis append_eq_conv_conj)

lemma drop_after_last: "c \<in> set s \<Longrightarrow> drop (Suc (length (before_last c s))) s = after_last c s"
  using before_after_last[of c s] by (metis append_eq_conv_conj drop_Suc tl_drop list.sel(3))

lemma before_last_prefix: "c \<in> set s \<Longrightarrow> prefix (before_last c s) s"
  using before_after_last[of c s] by (metis prefixI)

lemma truncate_prefix: "prefix (truncate_at_last c s) s"
  by (auto simp: truncate_at_last_def last_index_def before_last_prefix)

lemma take_before_last_prefix:
  assumes "prefix n p" and "c \<in> set n"
  shows "take (length (before_last c n)) p = before_last c n"
proof -
  obtain r where p: "p = n @ r" using assms(1) by (auto simp: prefix_def)
  have "length (before_last c n) \<le> length n"
    using before_last_prefix[OF assms(2)] by (rule prefix_length_le)
  then have "take (length (before_last c n)) p = take (length (before_last c n)) n"
    by (simp add: p)
  then show ?thesis by (simp add: take_before_last[OF assms(2)])
qed

lemma truncate_step:
  assumes "prefix n p"
  shows "(if 0 < lastIndexOf n [c] then substring p 0 (lastIndexOf n [c]) else n)
           = truncate_at_last c n"
proof (cases "c \<in> set n")
  case True
  then show ?thesis
    by (simp add: lastIndexOf_char last_index_def truncate_at_last_def substring_take
        take_before_last_prefix[OF assms True])
next
  case False
  then show ?thesis
    by (simp add: lastIndexOf_char last_index_def truncate_at_last_def)
qed

lemma extension_step:
  "(if 0 < lastIndexOf n [c] then toLowerCase (substr n (lastIndexOf n [c] + 1)) else [])
     = (case last_index c n of
          Some i \<Rightarrow> if 0 < i then toLowerCase (after_last c n) else []
        | None \<Rightarrow> [])"
proof (cases "c \<in> set n")
  case True
  have "nat (int (length (before_last c n)) + 1) = Suc (length (before_last c n))" by simp
  then show ?thesis using True
    by (simp add: lastIndexOf_char last_index_def substr_drop drop_after_last)
next
  case False
  then show ?thesis by (simp add: lastIndexOf_char last_index_def)
qed

lemma extension_refines: "extension p = normalized_extension p"
proof -
  let ?n1 = "truncate_at_last (CHR ''?'') p"
  let ?n2 = "truncate_at_last (CHR ''#'') ?n1"
  have s1: "(if 0 < lastIndexOf p ''?'' then substring p 0 (lastIndexOf p ''?'') else p) = ?n1"
    by (rule truncate_step) simp
  have s2: "(if 0 < lastIndexOf ?n1 ''#'' then substring p 0 (lastIndexOf ?n1 ''#'') else ?n1) = ?n2"
    by (rule truncate_step) (rule truncate_prefix)
  show ?thesis
    unfolding extension_def normalized_extension_def Let_def s1 s2 extension_step ..
qed

subsection \<open>Cache-or-fetch\<close>

lemma miss_iff:
  "(Option.bind (cache w p) table = None) = (\<not> (\<exists>t tb. cache w p = Some t \<and> table t = Some tb))"
  by (cases "cache w p") auto

lemma begin_hit:
  "Option.bind (cache w p) table = Some tb \<Longrightarrow>
   fetchOrUseCached_begin X this p w = (Resolved (Some tb), w)"
  by (simp add: fetchOrUseCached_begin_def)

lemma begin_miss:
  "Option.bind (cache w p) table = None \<Longrightarrow>
   fetchOrUseCached_begin X this p w =
     (Fetching (extension p = ''avro'') (fs_fetch X (fs this) p (extension p = ''avro'')),
      w\<lparr>calls := calls w @ [FetchCall (fs this) p (extension p = ''avro'')]\<rparr>)"
  by (simp add: fetchOrUseCached_begin_def Let_def)

lemma begin_cache: "cache (snd (fetchOrUseCached_begin X this p w)) = cache w"
  by (simp add: fetchOrUseCached_begin_def Let_def split: option.splits)

lemma fetched_calls: "calls (snd (fetched X this p isAvro now res w)) = calls w"
  by (simp add: fetched_def Let_def split: sum.splits)

lemma fetched_failure:
  "fst (fetched X this p isAvro now res w) = Inl e \<Longrightarrow>
   snd (fetched X this p isAvro now res w) = w"
  by (simp add: fetched_def Let_def split: sum.splits)

lemma fetched_value: "fst (fetched X this p isAvro now res w) = parse_response X this isAvro res"
  by (simp add: fetched_def Let_def split: sum.splits)

subsection \<open>Construction and parser choice\<close>

lemma constructor_parsers:
  "constructor X s = Inr this \<Longrightarrow>
   parsers this = [''csv'' \<mapsto> CSVResponseParser s, ''avro'' \<mapsto> AvroResponseParser s,
                   ''json'' \<mapsto> JSONResponseParser s]"
  by (auto simp: constructor_def Let_def split: sum.splits)

lemma constructor_unknown_type:
  assumes "k \<notin> set (map fst registry)" and "k \<notin> set Object_prototype"
  shows "constructor X \<lparr>jsonData = Some \<lparr>timeInterval = ti, type = Some k\<rparr>\<rparr>
           = Inr \<lparr>interval = ti,
                  fs = UnknownFileSystem \<lparr>jsonData = Some \<lparr>timeInterval = ti, type = Some k\<rparr>\<rparr>,
                  parsers =
                    [''csv'' \<mapsto> CSVResponseParser \<lparr>jsonData = Some \<lparr>timeInterval = ti, type = Some k\<rparr>\<rparr>,
                     ''avro'' \<mapsto> AvroResponseParser \<lparr>jsonData = Some \<lparr>timeInterval = ti, type = Some k\<rparr>\<rparr>,
                     ''json'' \<mapsto> JSONResponseParser \<lparr>jsonData = Some \<lparr>timeInterval = ti, type = Some k\<rparr>\<rparr>]\<rparr>"
proof -
  have "map_of registry k = None" using assms(1) by (simp add: map_of_eq_None_iff)
  then have "registry_get k = None" using assms(2) by (simp add: registry_get_def)
  then show ?thesis by (simp add: constructor_def property_key_def Let_def)
qed

lemma json_test:
  "(case contentType of None \<Rightarrow> False | Some ct \<Rightarrow> ct \<noteq> [] \<and> 0 \<le> indexOf ct ''json'')
     = (case contentType of None \<Rightarrow> False | Some ct \<Rightarrow> sublist ''json'' ct)"
  by (cases contentType) (auto simp: indexOf_sublist)

subsection \<open>Targets, schedules and the joined promise\<close>

lemma truthy_path_iff: "truthy_path t = (path t \<noteq> None \<and> path t \<noteq> Some [])"
  by (cases "path t") (auto simp: truthy_path_def)

lemma fetched_pair:
  "fetched X this p isAvro now res w = (r, w1) \<Longrightarrow> r = parse_response X this isAvro res"
  using fetched_value[of X this p isAvro now res w] by simp

lemma settle_pair:
  assumes "settle X this q now w = (r, w1)"
  shows "r = target_outcome X this q"
proof (cases q)
  case (fields t req st)
  show ?thesis
  proof (cases st)
    case (Resolved tb)
    then show ?thesis
      using assms by (simp add: fields settle_def target_outcome_def target_table_def)
  next
    case (Fetching isAvro outcome)
    show ?thesis
    proof (cases outcome)
      case (Inl e)
      then show ?thesis
        using assms by (simp add: fields Fetching settle_def target_outcome_def target_table_def)
    next
      case (Inr res)
      obtain r' w' where f: "fetched X this req isAvro now res w = (r', w')"
        by (cases "fetched X this req isAvro now res w")
      have r': "r' = parse_response X this isAvro res" by (rule fetched_pair[OF f])
      show ?thesis
      proof (cases "parse_response X this isAvro res")
        case (Inl e)
        then show ?thesis
          using assms f r'
          by (simp add: fields Fetching Inr settle_def target_outcome_def target_table_def)
      next
        case (Inr tb)
        then show ?thesis
          using assms f r' \<open>outcome = Inr res\<close>
          by (simp add: fields Fetching settle_def target_outcome_def target_table_def)
      qed
    qed
  qed
qed

lemma start_queries_pair:
  "start_queries X this kept w = (qs, w') \<Longrightarrow>
   length qs = length kept \<and> map fst qs = map fst kept \<and> cache w' = cache w"
proof (induction kept arbitrary: w qs w')
  case Nil
  then show ?case by simp
next
  case (Cons a kept)
  obtain t req where a: "a = (t, req)" by (cases a)
  obtain p w1 where b: "fetchOrUseCached_begin X this req w = (p, w1)"
    by (cases "fetchOrUseCached_begin X this req w")
  obtain ps w2 where c: "start_queries X this kept w1 = (ps, w2)"
    by (cases "start_queries X this kept w1")
  have "cache w1 = cache w" using begin_cache[of X this req w] b by simp
  moreover note Cons.IH[OF c]
  moreover have "qs = (t, req, p) # ps" "w' = w2" using Cons.prems by (simp_all add: a b c)
  ultimately show ?case by (simp add: a)
qed

lemma started_targets:
  "map fst (started X this options w) = filter truthy_path (targets options)"
proof -
  obtain qs w' where s: "start_queries X this (queryTargets X options) w = (qs, w')"
    by (cases "start_queries X this (queryTargets X options) w")
  have "map fst (queryTargets X options) = filter truthy_path (targets options)"
    by (simp add: queryTargets_def Let_def comp_def)
  with start_queries_pair[OF s] show ?thesis
    by (simp add: started_def s)
qed

lemma started_length:
  "length (started X this options w) = length (queryTargets X options)"
proof -
  obtain qs w' where s: "start_queries X this (queryTargets X options) w = (qs, w')"
    by (cases "start_queries X this (queryTargets X options) w")
  from start_queries_pair[OF s] show ?thesis by (simp add: started_def s)
qed

lemma run_schedule_skip:
  assumes "\<not> (j < length qs \<and> settled ! j = None)"
  shows "run_schedule X this qs ((j, now) # rest) settled rej w
           = run_schedule X this qs rest settled rej w"
  using assms by (simp only: run_schedule.simps if_False)

lemma run_schedule_length:
  "run_schedule X this qs sched settled rej w = (settled', rej', w') \<Longrightarrow>
   length settled' = length settled"
proof (induction X this qs sched settled rej w rule: run_schedule.induct)
  case (1 X this qs settled rejection w)
  then show ?case by simp
next
  case (2 X this qs j now rest settled rejection w)
  show ?case
  proof (cases "j < length qs \<and> settled ! j = None")
    case True
    obtain outcome w1 where s: "settle X this (qs ! j) now w = (outcome, w1)"
      by (cases "settle X this (qs ! j) now w")
    let ?rej = "case rejection of Some e \<Rightarrow> Some e
                | None \<Rightarrow> (case outcome of Inl e \<Rightarrow> Some e | Inr v \<Rightarrow> None)"
    have run: "run_schedule X this qs rest (settled[j := Some outcome]) ?rej w1 = (settled', rej', w')"
      using "2.prems"(1) True s by simp
    from "2.IH"(1)[OF True s[symmetric] run] show ?thesis by simp
  next
    case False
    have "run_schedule X this qs rest settled rejection w = (settled', rej', w')"
      using "2.prems"(1) unfolding run_schedule_skip[OF False] .
    from "2.IH"(2)[OF False this] show ?thesis by simp
  qed
qed

lemma run_schedule_keeps:
  "run_schedule X this qs sched settled rej w = (settled', rej', w') \<Longrightarrow>
   i < length settled \<Longrightarrow> settled ! i = Some v \<Longrightarrow> settled' ! i = Some v"
proof (induction X this qs sched settled rej w rule: run_schedule.induct)
  case (1 X this qs settled rejection w)
  then show ?case by simp
next
  case (2 X this qs j now rest settled rejection w)
  show ?case
  proof (cases "j < length qs \<and> settled ! j = None")
    case True
    obtain outcome w1 where s: "settle X this (qs ! j) now w = (outcome, w1)"
      by (cases "settle X this (qs ! j) now w")
    let ?rej = "case rejection of Some e \<Rightarrow> Some e
                | None \<Rightarrow> (case outcome of Inl e \<Rightarrow> Some e | Inr v \<Rightarrow> None)"
    have run: "run_schedule X this qs rest (settled[j := Some outcome]) ?rej w1 = (settled', rej', w')"
      using "2.prems"(1) True s by simp
    have "i \<noteq> j" using True "2.prems" by auto
    then have "(settled[j := Some outcome]) ! i = Some v" using "2.prems" by simp
    with "2.IH"(1)[OF True s[symmetric] run] "2.prems" show ?thesis by simp
  next
    case False
    have "run_schedule X this qs rest settled rejection w = (settled', rej', w')"
      using "2.prems"(1) unfolding run_schedule_skip[OF False] .
    from "2.IH"(2)[OF False this] "2.prems" show ?thesis by simp
  qed
qed

lemma run_schedule_settles:
  "run_schedule X this qs sched settled rej w = (settled', rej', w') \<Longrightarrow>
   i < length qs \<Longrightarrow> length settled = length qs \<Longrightarrow> i \<in> fst ` set sched \<Longrightarrow>
   settled ! i = None \<Longrightarrow>
   settled' ! i = Some (target_outcome X this (qs ! i))"
proof (induction X this qs sched settled rej w rule: run_schedule.induct)
  case (1 X this qs settled rejection w)
  then show ?case by simp
next
  case (2 X this qs j now rest settled rejection w)
  show ?case
  proof (cases "j < length qs \<and> settled ! j = None")
    case True
    obtain outcome w1 where s: "settle X this (qs ! j) now w = (outcome, w1)"
      by (cases "settle X this (qs ! j) now w")
    have o: "outcome = target_outcome X this (qs ! j)" by (rule settle_pair[OF s])
    let ?rej = "case rejection of Some e \<Rightarrow> Some e
                | None \<Rightarrow> (case outcome of Inl e \<Rightarrow> Some e | Inr v \<Rightarrow> None)"
    have run: "run_schedule X this qs rest (settled[j := Some outcome]) ?rej w1 = (settled', rej', w')"
      using "2.prems"(1) True s by simp
    show ?thesis
    proof (cases "i = j")
      case True
      have "settled' ! j = Some outcome"
        using run_schedule_keeps[OF run, of j "outcome"] "2.prems" True by simp
      then show ?thesis using o True by simp
    next
      case False
      then have "i \<in> fst ` set rest" using "2.prems"(4) by auto
      moreover have "(settled[j := Some outcome]) ! i = None" using False "2.prems" by simp
      ultimately show ?thesis
        using "2.IH"(1)[OF \<open>j < length qs \<and> settled ! j = None\<close> s[symmetric] run] "2.prems" by simp
    qed
  next
    case False
    then have "i \<noteq> j" using "2.prems" by auto
    then have "i \<in> fst ` set rest" using "2.prems"(4) by auto
    moreover have run: "run_schedule X this qs rest settled rejection w = (settled', rej', w')"
      using "2.prems"(1) unfolding run_schedule_skip[OF False] .
    ultimately show ?thesis using "2.IH"(2)[OF False run] "2.prems" by simp
  qed
qed




lemma run_schedule_rejection_origin:
  "run_schedule X this qs sched settled rej w = (settled', rej', w') \<Longrightarrow>
   rej' = Some e' \<Longrightarrow>
   rej = Some e' \<or> (\<exists>j < length qs. target_outcome X this (qs ! j) = Inl e')"
proof (induction X this qs sched settled rej w rule: run_schedule.induct)
  case (1 X this qs settled rejection w)
  then show ?case by simp
next
  case (2 X this qs j now rest settled rejection w)
  show ?case
  proof (cases "j < length qs \<and> settled ! j = None")
    case True
    obtain outcome w1 where s: "settle X this (qs ! j) now w = (outcome, w1)"
      by (cases "settle X this (qs ! j) now w")
    have o: "outcome = target_outcome X this (qs ! j)" by (rule settle_pair[OF s])
    let ?rej = "case rejection of Some e \<Rightarrow> Some e
                | None \<Rightarrow> (case outcome of Inl e \<Rightarrow> Some e | Inr v \<Rightarrow> None)"
    have run: "run_schedule X this qs rest (settled[j := Some outcome]) ?rej w1 = (settled', rej', w')"
      using "2.prems"(1) True s by simp
    from "2.IH"(1)[OF True s[symmetric] run "2.prems"(2)]
    have "?rej = Some e' \<or> (\<exists>j < length qs. target_outcome X this (qs ! j) = Inl e')" .
    then show ?thesis
    proof
      assume r: "?rej = Some e'"
      show ?thesis
      proof (cases rejection)
        case None
        then have "outcome = Inl e'" using r by (cases outcome) auto
        then show ?thesis using o True by auto
      next
        case (Some a)
        then show ?thesis using r by simp
      qed
    next
      assume "\<exists>j < length qs. target_outcome X this (qs ! j) = Inl e'"
      then show ?thesis ..
    qed
  next
    case False
    have run: "run_schedule X this qs rest settled rejection w = (settled', rej', w')"
      using "2.prems"(1) unfolding run_schedule_skip[OF False] .
    from "2.IH"(2)[OF False run "2.prems"(2)] show ?thesis .
  qed
qed

lemma query_unfold:
  assumes "queryTargets X options \<noteq> []"
    and "start_queries X this (queryTargets X options) w = (qs, w1)"
    and "run_schedule X this qs schedule (replicate (length qs) None) None w1 = (settled, rej, w2)"
  shows "query X this schedule options w = (Promise_all_then settled rej, w2)"
  using assms by (simp add: query_def Let_def)

lemma changes_callback_contribution:
  "changes_callback X t tb = Inr v \<Longrightarrow> flatten_one v = contribution X t tb"
  by (auto simp: changes_callback_def contribution_def comp_def split: if_splits sum.splits)

lemma those_map_Some: "those (map Some xs) = Some xs"
  by (induction xs) auto

lemma begin_fst_cache:
  "cache w' = cache w \<Longrightarrow>
   fst (fetchOrUseCached_begin X this p w') = fst (fetchOrUseCached_begin X this p w)"
  by (simp add: fetchOrUseCached_begin_def Let_def split: option.splits)

lemma start_queries_started:
  "start_queries X this kept w' = (qs, w'') \<Longrightarrow> cache w' = cache w \<Longrightarrow>
   qs = map (\<lambda>(t, req). (t, req, fst (fetchOrUseCached_begin X this req w))) kept"
proof (induction kept arbitrary: w' qs w'')
  case Nil
  then show ?case by simp
next
  case (Cons a kept)
  obtain t req where a: "a = (t, req)" by (cases a)
  obtain p w1 where b: "fetchOrUseCached_begin X this req w' = (p, w1)"
    by (cases "fetchOrUseCached_begin X this req w'")
  obtain ps w2 where c: "start_queries X this kept w1 = (ps, w2)"
    by (cases "start_queries X this kept w1")
  have "cache w1 = cache w'" using begin_cache[of X this req w'] b by simp
  then have w1: "cache w1 = cache w" using Cons.prems(2) by simp
  have p: "p = fst (fetchOrUseCached_begin X this req w)"
    using begin_fst_cache[OF Cons.prems(2), of X this req] b by simp
  have "qs = (t, req, p) # ps" using Cons.prems(1) by (simp add: a b c)
  with Cons.IH[OF c w1] p show ?case by (simp add: a)
qed

lemma queryTargets_resolved:
  "queryTargets X options
     = map (\<lambda>t. (t, resolved_path X options t)) (filter truthy_path (targets options))"
  by (simp add: queryTargets_def resolved_path_def getTimeFilter_def Let_def)

lemma started_nth:
  assumes "i < length (filter truthy_path (targets options))"
  shows "started X this options w ! i
           = (filter truthy_path (targets options) ! i,
              resolved_path X options (filter truthy_path (targets options) ! i),
              fst (fetchOrUseCached_begin X this
                     (resolved_path X options (filter truthy_path (targets options) ! i)) w))"
proof -
  obtain qs w' where s: "start_queries X this (queryTargets X options) w = (qs, w')"
    by (cases "start_queries X this (queryTargets X options) w")
  have "qs = map (\<lambda>(t, req). (t, req, fst (fetchOrUseCached_begin X this req w)))
               (queryTargets X options)"
    by (rule start_queries_started[OF s refl])
  then have "qs = map (\<lambda>t. (t, resolved_path X options t,
                             fst (fetchOrUseCached_begin X this (resolved_path X options t) w)))
                    (filter truthy_path (targets options))"
    by (simp add: queryTargets_resolved comp_def)
  moreover have "started X this options w = qs" by (simp add: started_def s)
  ultimately show ?thesis using assms by simp
qed

lemma target_table_call:
  "target_table X this (t, req, fst (fetchOrUseCached_begin X this req w))
     = fst (fetchOrUseCached X this now req w)"
proof (cases "Option.bind (cache w req) table")
  case None
  show ?thesis
  proof (cases "fs_fetch X (fs this) req (extension req = ''avro'')")
    case (Inl e)
    then show ?thesis
      by (simp add: target_table_def fetchOrUseCached_def begin_miss[OF None])
  next
    case (Inr res)
    then show ?thesis
      by (simp add: target_table_def fetchOrUseCached_def begin_miss[OF None] fetched_value)
  qed
next
  case (Some tb)
  then show ?thesis by (simp add: target_table_def fetchOrUseCached_def begin_hit)
qed

lemma run_schedule_append:
  "run_schedule X this qs (s1 @ s2) settled rej w
     = (case run_schedule X this qs s1 settled rej w of
          (settled1, rej1, w1) \<Rightarrow> run_schedule X this qs s2 settled1 rej1 w1)"
proof (induction X this qs s1 settled rej w rule: run_schedule.induct)
  case (1 X this qs settled rejection w)
  then show ?case by simp
next
  case (2 X this qs j now rest settled rejection w)
  show ?case
  proof (cases "j < length qs \<and> settled ! j = None")
    case True
    obtain outcome w1 where s: "settle X this (qs ! j) now w = (outcome, w1)"
      by (cases "settle X this (qs ! j) now w")
    from "2.IH"(1)[OF True s[symmetric]] True s show ?thesis by simp
  next
    case False
    have "run_schedule X this qs (((j, now) # rest) @ s2) settled rejection w
            = run_schedule X this qs (rest @ s2) settled rejection w"
      using run_schedule_skip[OF False, of X this now "rest @ s2" rejection w] by simp
    then show ?thesis using "2.IH"(2)[OF False] by (simp only: run_schedule_skip[OF False])
  qed
qed

lemma run_schedule_untouched:
  "run_schedule X this qs sched settled rej w = (settled', rej', w') \<Longrightarrow>
   i \<notin> fst ` set sched \<Longrightarrow> settled' ! i = settled ! i"
proof (induction X this qs sched settled rej w rule: run_schedule.induct)
  case (1 X this qs settled rejection w)
  then show ?case by simp
next
  case (2 X this qs j now rest settled rejection w)
  have ij: "i \<noteq> j" and rest: "i \<notin> fst ` set rest" using "2.prems"(2) by auto
  show ?case
  proof (cases "j < length qs \<and> settled ! j = None")
    case True
    obtain outcome w1 where s: "settle X this (qs ! j) now w = (outcome, w1)"
      by (cases "settle X this (qs ! j) now w")
    let ?rej = "case rejection of Some e \<Rightarrow> Some e
                | None \<Rightarrow> (case outcome of Inl e \<Rightarrow> Some e | Inr v \<Rightarrow> None)"
    have run: "run_schedule X this qs rest (settled[j := Some outcome]) ?rej w1 = (settled', rej', w')"
      using "2.prems"(1) True s by simp
    from "2.IH"(1)[OF True s[symmetric] run rest] ij show ?thesis by simp
  next
    case False
    have run: "run_schedule X this qs rest settled rejection w = (settled', rej', w')"
      using "2.prems"(1) unfolding run_schedule_skip[OF False] .
    from "2.IH"(2)[OF False run rest] show ?thesis .
  qed
qed

subsection \<open>What a query does to the cache\<close>

lemma fetched_cache:
  "fetched X this p isAvro now res w = (r, w1) \<Longrightarrow>
   cache w1 = cache w \<or>
   (\<exists>tb. cache w1 = (cache w)(p \<mapsto> \<lparr>CachedTable.path = p, timestamp = now, table = tb\<rparr>))"
  by (auto simp: fetched_def Let_def split: sum.splits)

lemma fetchOrUseCached_cache:
  "fetchOrUseCached X this now p w = (r, w1) \<Longrightarrow>
   cache w1 = cache w \<or>
   (\<exists>tb. cache w1 = (cache w)(p \<mapsto> \<lparr>CachedTable.path = p, timestamp = now, table = tb\<rparr>))"
proof -
  assume a: "fetchOrUseCached X this now p w = (r, w1)"
  obtain st w0 where b: "fetchOrUseCached_begin X this p w = (st, w0)"
    by (cases "fetchOrUseCached_begin X this p w")
  have c: "cache w0 = cache w" using begin_cache[of X this p w] b by simp
  show ?thesis
  proof (cases st)
    case (Resolved tb)
    then show ?thesis using a b c by (simp add: fetchOrUseCached_def)
  next
    case (Fetching isAvro outcome)
    show ?thesis
    proof (cases outcome)
      case (Inl e)
      then show ?thesis using a b c Fetching by (simp add: fetchOrUseCached_def)
    next
      case (Inr res)
      then have "fetched X this p isAvro now res w0 = (r, w1)"
        using a b Fetching by (simp add: fetchOrUseCached_def)
      from fetched_cache[OF this] c show ?thesis by simp
    qed
  qed
qed

lemma settle_cache:
  assumes "settle X this (t, req, st) now w = (r, w1)"
  shows "cache w1 = cache w \<or>
   (\<exists>tb. cache w1 = (cache w)(req \<mapsto> \<lparr>CachedTable.path = req, timestamp = now, table = tb\<rparr>))"
proof (cases st)
  case (Resolved tb)
  then show ?thesis using assms by (simp add: settle_def)
next
  case (Fetching isAvro outcome)
  show ?thesis
  proof (cases outcome)
    case (Inl e)
    then show ?thesis using assms Fetching by (simp add: settle_def)
  next
    case (Inr res)
    obtain r' w' where f: "fetched X this req isAvro now res w = (r', w')"
      by (cases "fetched X this req isAvro now res w")
    have "w1 = w'" using assms Fetching Inr f by (cases r') (simp_all add: settle_def)
    with fetched_cache[OF f] show ?thesis by simp
  qed
qed

lemma put_keeps_dom:
  "cache w1 = cache w \<or> (\<exists>tb. cache w1 = (cache w)(p \<mapsto> \<lparr>CachedTable.path = p, timestamp = now, table = tb\<rparr>))
   \<Longrightarrow> dom (cache w) \<subseteq> dom (cache w1)"
  by auto

lemma put_keeps_keyed:
  "cache w1 = cache w \<or> (\<exists>tb. cache w1 = (cache w)(p \<mapsto> \<lparr>CachedTable.path = p, timestamp = now, table = tb\<rparr>))
   \<Longrightarrow> cache_keyed w \<Longrightarrow> cache_keyed w1"
  by (auto simp: cache_keyed_def split: if_splits)

lemma run_schedule_cache:
  "run_schedule X this qs sched settled rej w = (settled', rej', w') \<Longrightarrow>
   dom (cache w) \<subseteq> dom (cache w') \<and> (cache_keyed w \<longrightarrow> cache_keyed w')"
proof (induction X this qs sched settled rej w rule: run_schedule.induct)
  case (1 X this qs settled rejection w)
  then show ?case by simp
next
  case (2 X this qs j now rest settled rejection w)
  show ?case
  proof (cases "j < length qs \<and> settled ! j = None")
    case True
    obtain outcome w1 where s: "settle X this (qs ! j) now w = (outcome, w1)"
      by (cases "settle X this (qs ! j) now w")
    let ?rej = "case rejection of Some e \<Rightarrow> Some e
                | None \<Rightarrow> (case outcome of Inl e \<Rightarrow> Some e | Inr v \<Rightarrow> None)"
    have run: "run_schedule X this qs rest (settled[j := Some outcome]) ?rej w1 = (settled', rej', w')"
      using "2.prems"(1) True s by simp
    obtain t req st where q: "qs ! j = (t, req, st)" by (cases "qs ! j")
    have step: "cache w1 = cache w \<or>
      (\<exists>tb. cache w1 = (cache w)(req \<mapsto> \<lparr>CachedTable.path = req, timestamp = now, table = tb\<rparr>))"
      using settle_cache[of X this t req st now w outcome w1] s q by simp
    have "dom (cache w) \<subseteq> dom (cache w1)" by (rule put_keeps_dom[OF step])
    moreover have "cache_keyed w \<longrightarrow> cache_keyed w1" using put_keeps_keyed[OF step] by blast
    moreover note "2.IH"(1)[OF True s[symmetric] run]
    ultimately show ?thesis by blast
  next
    case False
    have run: "run_schedule X this qs rest settled rejection w = (settled', rej', w')"
      using "2.prems"(1) unfolding run_schedule_skip[OF False] .
    from "2.IH"(2)[OF False run] show ?thesis .
  qed
qed

lemma query_cache:
  "query X this schedule options w = (r, w') \<Longrightarrow>
   dom (cache w) \<subseteq> dom (cache w') \<and> (cache_keyed w \<longrightarrow> cache_keyed w')"
proof (cases "queryTargets X options = []")
  case True
  assume "query X this schedule options w = (r, w')"
  then show ?thesis using True by (simp add: query_def Let_def)
next
  case ne: False
  assume a: "query X this schedule options w = (r, w')"
  obtain qs w1 where s: "start_queries X this (queryTargets X options) w = (qs, w1)"
    by (cases "start_queries X this (queryTargets X options) w")
  obtain settled rej w2 where
    r: "run_schedule X this qs schedule (replicate (length qs) None) None w1 = (settled, rej, w2)"
    by (cases "run_schedule X this qs schedule (replicate (length qs) None) None w1")
  have "w' = w2" using a query_unfold[OF ne s r] by simp
  moreover have c: "cache w1 = cache w" using start_queries_pair[OF s] by simp
  then have "cache_keyed w1 = cache_keyed w" by (simp add: cache_keyed_def)
  moreover note run_schedule_cache[OF r]
  ultimately show ?thesis using c by simp
qed

lemma query_data_of_started:
  assumes "\<forall>i < length (started X this options w). i \<in> fst ` set schedule"
    and "map (target_table X this) (started X this options w) = map Inr tables"
    and "\<forall>i < length tables. changes (filter truthy_path (targets options) ! i) \<longrightarrow>
            (\<exists>info. processChanges X (tables ! i) = Inr info)"
  shows "fst (query X this schedule options w) =
           Some (Inr \<lparr>data = concat (map2 (contribution X)
                                       (filter truthy_path (targets options)) tables)\<rparr>)"
proof (cases "queryTargets X options = []")
  case True
  then have "filter truthy_path (targets options) = []"
    by (simp add: queryTargets_def Let_def)
  then show ?thesis using True by (simp add: query_def Let_def)
next
  case ne: False
  obtain qs w1 where s: "start_queries X this (queryTargets X options) w = (qs, w1)"
    by (cases "start_queries X this (queryTargets X options) w")
  have qs: "started X this options w = qs" by (simp add: started_def s)
  obtain settled rej w2 where
    r: "run_schedule X this qs schedule (replicate (length qs) None) None w1 = (settled, rej, w2)"
    by (cases "run_schedule X this qs schedule (replicate (length qs) None) None w1")
  let ?kept = "filter truthy_path (targets options)"
  have kept: "map fst qs = ?kept" using started_targets[of X this options w] qs by simp
  have "length (map Inr tables :: (JSError + 'a option) list) = length (map (target_table X this) qs)"
    using assms(2) qs by simp
  then have len1: "length tables = length qs" by simp
  have "length (map fst qs) = length ?kept" using kept by simp
  then have len2: "length ?kept = length qs" by simp
  note len = len1 len2
  define vs where "vs = map2 (\<lambda>t tb. if changes t
        then (case processChanges X tb of Inr info \<Rightarrow>
                Series (map (\<lambda>name. \<lparr>target = name, alias' = name, datapoints = series info name\<rparr>) (order info))
              | Inl e \<Rightarrow> Raw tb)
        else Raw tb) ?kept tables"
  have outcome: "target_outcome X this (qs ! i) = Inr (vs ! i)" if i: "i < length qs" for i
  proof -
    have "target_table X this (qs ! i) = Inr (tables ! i)"
      using assms(2) i qs len by (metis nth_map)
    moreover have "fst (qs ! i) = ?kept ! i" using kept i by (metis nth_map)
    moreover have "changes (?kept ! i) \<longrightarrow> (\<exists>info. processChanges X (tables ! i) = Inr info)"
      using assms(3) i len by simp
    ultimately show ?thesis
      using i len by (auto simp: target_outcome_def changes_callback_def vs_def)
  qed
  have flat: "flatten_one (vs ! i) = contribution X (?kept ! i) (tables ! i)" if i: "i < length qs" for i
  proof -
    have "changes_callback X (fst (qs ! i)) (tables ! i) = Inr (vs ! i)"
      using outcome[OF i] assms(2) i qs len
      by (simp add: target_outcome_def) (metis nth_map sum.simps(6) len(1))
    moreover have "fst (qs ! i) = ?kept ! i" using kept i by (metis nth_map)
    ultimately show ?thesis by (simp add: changes_callback_contribution)
  qed
  have lset: "length settled = length qs" using run_schedule_length[OF r] by simp
  have "settled ! i = Some (Inr (vs ! i))" if i: "i < length qs" for i
  proof -
    have "i \<in> fst ` set schedule" using assms(1) i qs by simp
    from run_schedule_settles[OF r i _ this] outcome[OF i] i show ?thesis by simp
  qed
  then have "map fulfilled settled = map Some vs"
    using lset len by (auto simp: list_eq_iff_nth_eq fulfilled_def vs_def)
  then have th: "those (map fulfilled settled) = Some vs" by (simp add: those_map_Some)
  have "rej = None"
  proof (cases rej)
    case None
    then show ?thesis .
  next
    case (Some e')
    from run_schedule_rejection_origin[OF r Some] outcome show ?thesis by auto
  qed
  then have res: "fst (query X this schedule options w) = Some (Inr \<lparr>data = flattenDeep vs\<rparr>)"
    by (simp add: query_unfold[OF ne s r] Promise_all_then_def th)
  have "map flatten_one vs = map2 (contribution X) ?kept tables"
    using flat len by (auto simp: list_eq_iff_nth_eq vs_def)
  then show ?thesis using res by (simp add: flattenDeep_def)
qed

lemma testDatasource_structured:
  assumes "has_methods (fs this)"
    and "fs_list X (fs this) [] \<noteq> Inl Undefined" and "fs_list X (fs this) [] \<noteq> Inl Null"
  shows "\<exists>r. fst (testDatasource X this w) = Promise (Inr r) \<and>
       (\<forall>dir. fs_list X (fs this) [] = Inr dir \<longrightarrow>
          status r = ''success'' \<and>
          message r = ''Root Contains '' @ number_toString (length (files dir)) @ '' Files'') \<and>
       (\<forall>e. fs_list X (fs this) [] = Inl e \<longrightarrow>
          status r = ''error'' \<and>
          message r = (if read_member e ''cancelled'' = Inr True \<and> read_member e ''err'' = Inr True
                       then ''Error making HTTP request.  Check the javascrit console for more information''
                       else ''Error: '' @ err_toString e))"
proof (cases "fs_list X (fs this) []")
  case (Inl e)
  then show ?thesis
    using assms by (cases e) (simp_all add: testDatasource_def testDatasource_catch_def Let_def)
next
  case (Inr dir)
  then show ?thesis using assms(1) by (simp add: testDatasource_def Let_def)
qed

lemma fetched_put:
  "parse_response X this isAvro res = Inr tb \<Longrightarrow>
   fetched X this p isAvro now res w
     = (Inr tb, w\<lparr>cache := (cache w)(p \<mapsto> \<lparr>CachedTable.path = p, timestamp = now, table = tb\<rparr>)\<rparr>)"
  by (simp add: fetched_def Let_def)

lemma query_last_write:
  assumes sched: "schedule = earlier @ [(i, now)]"
    and i: "i < length (filter truthy_path (targets options))"
    and fresh: "i \<notin> fst ` set earlier"
    and req: "req = resolved_path X options (filter truthy_path (targets options) ! i)"
    and miss: "\<not> (\<exists>t tb0. cache w req = Some t \<and> table t = Some tb0)"
    and fetch: "fs_fetch X (fs this) req (extension req = ''avro'') = Inr res"
    and parsed: "parse_response X this (extension req = ''avro'') res = Inr tb"
  shows "cache (snd (query X this schedule options w)) req
           = Some \<lparr>CachedTable.path = req, timestamp = now, table = tb\<rparr>"
proof -
  let ?kept = "filter truthy_path (targets options)"
  obtain qs w1 where s: "start_queries X this (queryTargets X options) w = (qs, w1)"
    by (cases "start_queries X this (queryTargets X options) w")
  have qs: "started X this options w = qs" by (simp add: started_def s)
  have len: "length qs = length ?kept"
    using started_length[of X this options w] qs by (simp add: queryTargets_resolved)
  have ne: "queryTargets X options \<noteq> []" using i by (auto simp: queryTargets_resolved)
  have "Option.bind (cache w req) table = None" using miss by (simp add: miss_iff)
  then have "fst (fetchOrUseCached_begin X this req w)
               = Fetching (extension req = ''avro'') (Inr res)"
    by (simp add: begin_miss fetch)
  then have qi: "qs ! i = (?kept ! i, req, Fetching (extension req = ''avro'') (Inr res))"
    using started_nth[OF i, of X this w] qs req by simp
  obtain settled1 rej1 wa where
    r1: "run_schedule X this qs earlier (replicate (length qs) None) None w1 = (settled1, rej1, wa)"
    by (cases "run_schedule X this qs earlier (replicate (length qs) None) None w1")
  have "settled1 ! i = replicate (length qs) None ! i"
    by (rule run_schedule_untouched[OF r1 fresh])
  then have none: "settled1 ! i = None" using i len by simp
  let ?wb = "wa\<lparr>cache := (cache wa)(req \<mapsto> \<lparr>CachedTable.path = req, timestamp = now, table = tb\<rparr>)\<rparr>"
  have st: "settle X this (qs ! i) now wa = (changes_callback X (?kept ! i) tb, ?wb)"
    by (simp add: settle_def qi fetched_put[OF parsed])
  let ?settled = "settled1[i := Some (changes_callback X (?kept ! i) tb)]"
  let ?rej = "case rej1 of Some e \<Rightarrow> Some e
              | None \<Rightarrow> (case changes_callback X (?kept ! i) tb of
                            Inl e \<Rightarrow> Some e | Inr v \<Rightarrow> None)"
  have "run_schedule X this qs [(i, now)] settled1 rej1 wa = (?settled, ?rej, ?wb)"
    using none i len st by simp
  then have full: "run_schedule X this qs schedule (replicate (length qs) None) None w1
                     = (?settled, ?rej, ?wb)"
    by (simp add: sched run_schedule_append r1)
  have "snd (query X this schedule options w) = ?wb"
    by (simp add: query_unfold[OF ne s full])
  then show ?thesis by simp
qed

section \<open>The claims\<close>

text \<open>
  C1. When the cache holds an entry for the path and that entry has a table,
  \<open>_fetchOrUseCached\<close> resolves with exactly that table and leaves the world as it
  was, so no backend call is made. On a miss (no entry, or an entry without a
  table) with a fetch that resolves and a parse that returns, it logs the fetch,
  stores for that path an entry with the path, the parsed table and the clock
  reading taken after the parse, and resolves with the parsed table.
\<close>

theorem fetchOrUseCached_hit_and_miss:
  "(cache w p = Some t \<and> table t = Some tb \<longrightarrow>
      fetchOrUseCached X this now p w = (Inr (Some tb), w)) \<and>
   (\<not> (\<exists>t tb. cache w' p = Some t \<and> table t = Some tb) \<and>
    fs_fetch X (fs this) p (extension p = ''avro'') = Inr res \<and>
    parse_response X this (extension p = ''avro'') res = Inr tb' \<longrightarrow>
      fetchOrUseCached X this now p w' =
        (Inr tb',
         w'\<lparr>calls := calls w' @ [FetchCall (fs this) p (extension p = ''avro'')],
            cache := (cache w')(p \<mapsto> \<lparr>CachedTable.path = p, timestamp = now, table = tb'\<rparr>)\<rparr>))"
proof (intro conjI impI)
  assume "cache w p = Some t \<and> table t = Some tb"
  then have "Option.bind (cache w p) table = Some tb" by simp
  then show "fetchOrUseCached X this now p w = (Inr (Some tb), w)"
    by (simp add: fetchOrUseCached_def begin_hit)
next
  assume a: "\<not> (\<exists>t tb. cache w' p = Some t \<and> table t = Some tb) \<and>
    fs_fetch X (fs this) p (extension p = ''avro'') = Inr res \<and>
    parse_response X this (extension p = ''avro'') res = Inr tb'"
  then have "Option.bind (cache w' p) table = None" by (simp add: miss_iff)
  with a show "fetchOrUseCached X this now p w' =
        (Inr tb',
         w'\<lparr>calls := calls w' @ [FetchCall (fs this) p (extension p = ''avro'')],
            cache := (cache w')(p \<mapsto> \<lparr>CachedTable.path = p, timestamp = now, table = tb'\<rparr>)\<rparr>)"
    by (simp add: fetchOrUseCached_def begin_miss fetched_def Let_def)
qed

theorem fetchOrUseCached_hit_and_miss_witness:
  "fetchOrUseCached sample_collaborators sample_datasource 9 ''a.csv'' warm_world
     = (Inr (Some ''old''), warm_world) \<and>
   fetchOrUseCached sample_collaborators sample_datasource 9 ''a.csv'' empty_world
     = (Inr (Some ''x,y''),
        empty_world\<lparr>calls := calls empty_world @
                       [FetchCall (fs sample_datasource) ''a.csv'' (extension ''a.csv'' = ''avro'')],
                    cache := (cache empty_world)(''a.csv'' \<mapsto>
                       \<lparr>CachedTable.path = ''a.csv'', timestamp = 9, table = Some ''x,y''\<rparr>)\<rparr>)"
proof -
  have hit: "cache warm_world ''a.csv''
               = Some \<lparr>CachedTable.path = ''a.csv'', timestamp = 5, table = Some ''old''\<rparr> \<and>
             table \<lparr>CachedTable.path = ''a.csv'', timestamp = 5, table = Some ''old''\<rparr> = Some ''old''"
    by (simp add: warm_world_def)
  have miss: "\<not> (\<exists>t tb. cache empty_world ''a.csv'' = Some t \<and> table t = Some (tb :: string))"
    by (simp add: empty_world_def)
  have ext: "extension ''a.csv'' = ''csv''" by code_simp
  have fetch: "fs_fetch sample_collaborators (fs sample_datasource) ''a.csv''
                 (extension ''a.csv'' = ''avro'')
               = Inr \<lparr>headers = [''content-type'' \<mapsto> ''text/csv''], body = ''x,y''\<rparr>"
    by (simp add: sample_collaborators_def sample_fetch_def)
  have "indexOf ''text/csv'' ''json'' = - 1" by code_simp
  then have parsed: "parse_response sample_collaborators sample_datasource
                 (extension ''a.csv'' = ''avro'')
                 \<lparr>headers = [''content-type'' \<mapsto> ''text/csv''], body = ''x,y''\<rparr>
               = Inr (Some ''x,y'')"
    by (simp add: parse_response_def select_parser_def sample_collaborators_def
        sample_datasource_def ext)
  from fetchOrUseCached_hit_and_miss
         [where w = warm_world and p = "''a.csv''" and tb = "''old''" and w' = empty_world
            and X = sample_collaborators and this = sample_datasource and now = 9
            and t = "\<lparr>CachedTable.path = ''a.csv'', timestamp = 5, table = Some ''old''\<rparr>"
            and res = "\<lparr>headers = [''content-type'' \<mapsto> ''text/csv''], body = ''x,y''\<rparr>"
            and tb' = "Some ''x,y''"]
    hit miss fetch parsed
  show ?thesis by blast
qed

text \<open>
  C2. When every target of a query has an absent or empty path, the query
  resolves with an empty data list and leaves the world as it was: no backend
  call is logged and the cache is untouched. In general a query behaves exactly
  as the same query from which the targets with an absent or empty path have
  been removed beforehand.
\<close>

theorem query_without_paths:
  "((\<forall>t \<in> set (targets options). path t = None \<or> path t = Some []) \<longrightarrow>
      query X this schedule options w = (Some (Inr \<lparr>data = []\<rparr>), w)) \<and>
   query X this schedule options w =
     query X this schedule
       (options\<lparr>targets := filter (\<lambda>t. path t \<noteq> None \<and> path t \<noteq> Some []) (targets options)\<rparr>) w"
proof (intro conjI impI)
  assume "\<forall>t \<in> set (targets options). path t = None \<or> path t = Some []"
  then have "filter truthy_path (targets options) = []"
    by (auto simp: filter_empty_conv truthy_path_iff)
  then show "query X this schedule options w = (Some (Inr \<lparr>data = []\<rparr>), w)"
    by (simp add: query_def queryTargets_def Let_def)
next
  have eq: "(\<lambda>t. path t \<noteq> None \<and> path t \<noteq> Some []) = truthy_path"
    by (rule ext) (simp add: truthy_path_iff)
  have "queryTargets X (options\<lparr>targets := filter (\<lambda>t. path t \<noteq> None \<and> path t \<noteq> Some []) (targets options)\<rparr>)
        = queryTargets X options"
    unfolding eq by (simp add: queryTargets_def Let_def getTimeFilter_def)
  then show "query X this schedule options w =
     query X this schedule
       (options\<lparr>targets := filter (\<lambda>t. path t \<noteq> None \<and> path t \<noteq> Some []) (targets options)\<rparr>) w"
    by (simp add: query_def)
qed

theorem query_without_paths_witness:
  "query sample_collaborators sample_datasource [(0, 4)] blank_options warm_world
     = (Some (Inr \<lparr>data = []\<rparr>), warm_world) \<and>
   set (targets blank_options)
     = {\<lparr>path = None, changes = False\<rparr>, \<lparr>path = Some [], changes = True\<rparr>}"
proof -
  have h: "\<forall>t \<in> set (targets blank_options). path t = None \<or> path t = Some []"
    by (simp add: blank_options_def)
  have t: "set (targets blank_options)
             = {\<lparr>path = None, changes = False\<rparr>, \<lparr>path = Some [], changes = True\<rparr>}"
    by (simp add: blank_options_def)
  from query_without_paths [of blank_options sample_collaborators sample_datasource "[(0, 4)]" warm_world] h t
  show ?thesis by blast
qed

text \<open>
  C3. Construction is meant to succeed, with the unknown-backend object
  installed, for every type string other than \<open>local\<close>, \<open>nginx\<close> and \<open>s3\<close>. The
  registry lookup also finds the members every object inherits. The type
  \<open>toString\<close> is none of the three registry keys, yet the lookup gives a truthy
  value for it; that value has no \<open>create\<close> member, and the constructor throws
  instead of installing the unknown-backend object.
\<close>

theorem constructor_throws_on_inherited_key:
  "''toString'' \<notin> set (map fst registry) \<and>
   constructor X \<lparr>jsonData = Some \<lparr>timeInterval = ti, type = Some ''toString''\<rparr>\<rparr>
     = Inl (TypeError ''builder.create is not a function'')"
  by (simp add: constructor_def registry_get_def registry_def Object_prototype_def
      property_key_def builder_create_def)

text \<open>
  C4. For a datasource object that the constructor has built, the callback's
  choice of parser is defined for every content type and every path, and it is
  the parser of the kind the specification's total function names: JSON when
  the content type contains \<open>json\<close>, otherwise avro when the extension is
  \<open>avro\<close>, otherwise delimited text. Hence every fetched response is handed to
  exactly that parser, and the branch of a missing parser is never taken.
\<close>

theorem parser_selection_total:
  "constructor X s = Inr this \<Longrightarrow>
   select_parser this contentType (extension p = ''avro'')
     = Some (parser_of_kind s (parser_kind contentType (extension p))) \<and>
   parse_response X this (extension p = ''avro'') res
     = parse X (parser_of_kind s (parser_kind (headers res ''content-type'') (extension p)))
         res (headers res ''content-type'')"
  by (simp add: parse_response_def select_parser_def json_test constructor_parsers
      parser_kind_def)

theorem parser_selection_total_witness:
  "constructor sample_collaborators sample_settings = Inr sample_datasource \<and>
   select_parser sample_datasource (Some ''application/json'') (extension ''x.avro'' = ''avro'')
     = Some (JSONResponseParser sample_settings) \<and>
   select_parser sample_datasource None (extension ''x.avro'' = ''avro'')
     = Some (AvroResponseParser sample_settings) \<and>
   select_parser sample_datasource (Some ''text/plain'') (extension ''x.txt'' = ''avro'')
     = Some (CSVResponseParser sample_settings)"
proof -
  have c: "constructor sample_collaborators sample_settings = Inr sample_datasource"
    by (simp add: constructor_def sample_settings_def sample_datasource_def registry_get_def
        registry_def property_key_def builder_create_def Let_def)
  have e1: "extension ''x.avro'' = ''avro''" by code_simp
  have e2: "extension ''x.txt'' = ''txt''" by code_simp
  have k1: "parser_kind (Some ''application/json'') ''avro'' = JSON_kind" by code_simp
  have k2: "parser_kind None ''avro'' = Avro_kind" by code_simp
  have k3: "parser_kind (Some ''text/plain'') ''txt'' = Delimited_text" by code_simp
  from parser_selection_total [OF c, of "Some ''application/json''" "''x.avro''"]
       parser_selection_total [OF c, of None "''x.avro''"]
       parser_selection_total [OF c, of "Some ''text/plain''" "''x.txt''"] c
  show ?thesis by (simp add: e1 e2 k1 k2 k3)
qed



text \<open>
  C6. Let the kept targets be the targets with a non-empty path, in their
  original order. When every chain settles, the cache-or-fetch of each kept
  target's own resolved path, looked up in the cache as it stands when the
  query starts, gives a table, and the transform succeeds on the targets that
  ask for it, then the query is fulfilled whatever the order of completion, and
  its data list is the concatenation, in the order of the targets, of what each
  target contributes from its own table: with the changes flag one entry per
  name of the order list, in that order, with that name as target and alias and
  the datapoints of the series map; without it the raw table.
\<close>

theorem query_preserves_target_order:
  assumes "\<forall>i < length (filter truthy_path (targets options)). i \<in> fst ` set schedule"
    and "length tables = length (filter truthy_path (targets options))"
    and "\<forall>i < length tables.
            fst (fetchOrUseCached X this now
                   (resolved_path X options (filter truthy_path (targets options) ! i)) w)
              = Inr (tables ! i)"
    and "\<forall>i < length tables. changes (filter truthy_path (targets options) ! i) \<longrightarrow>
            (\<exists>info. processChanges X (tables ! i) = Inr info)"
  shows "fst (query X this schedule options w) =
           Some (Inr \<lparr>data = concat (map2 (contribution X)
                                       (filter truthy_path (targets options)) tables)\<rparr>)"
proof -
  let ?kept = "filter truthy_path (targets options)"
  have len: "length (started X this options w) = length ?kept"
    by (simp add: started_length queryTargets_resolved)
  have sched: "\<forall>i < length (started X this options w). i \<in> fst ` set schedule"
    using assms(1) len by simp
  have "target_table X this (started X this options w ! i) = Inr (tables ! i)"
    if i: "i < length ?kept" for i
  proof -
    have "target_table X this (started X this options w ! i)
            = fst (fetchOrUseCached X this now (resolved_path X options (?kept ! i)) w)"
      by (simp only: started_nth[OF i] target_table_call)
    then show ?thesis using assms(2,3) i by simp
  qed
  then have tabs: "map (target_table X this) (started X this options w) = map Inr tables"
    using len assms(2) by (simp add: list_eq_iff_nth_eq)
  from query_data_of_started[OF sched tabs assms(4)] show ?thesis .
qed

theorem query_preserves_target_order_witness:
  "fst (query sample_collaborators sample_datasource [(2, 10), (0, 11), (1, 12)]
          mixed_options empty_world)
     = Some (Inr \<lparr>data =
         [TableItem (Some ''x,y''),
          TableItem (Some ''[7]''),
          EntryItem \<lparr>target = ''x'', alias' = ''x'', datapoints = Some [1, 2]\<rparr>,
          EntryItem \<lparr>target = ''y'', alias' = ''y'', datapoints = None\<rparr>]\<rparr>)"
proof -
  let ?tables = "[Some ''x,y'', Some ''[7]'', Some ''x,y'']"
  have kept: "filter truthy_path (targets mixed_options)
                = [\<lparr>path = Some ''a.csv'', changes = False\<rparr>,
                   \<lparr>path = Some ''c.json'', changes = False\<rparr>,
                   \<lparr>path = Some ''a.csv'', changes = True\<rparr>]"
    by (simp add: mixed_options_def truthy_path_def)
  have three: "i < 3 \<longleftrightarrow> i = 0 \<or> i = 1 \<or> i = 2" for i :: nat by auto
  have sched: "\<forall>i < length (filter truthy_path (targets mixed_options)).
                 i \<in> fst ` set [(2 :: nat, 10 :: nat), (0, 11), (1, 12)]"
    unfolding kept by (auto simp: three)
  have len: "length ?tables = length (filter truthy_path (targets mixed_options))"
    unfolding kept by simp
  have r0: "fst (fetchOrUseCached sample_collaborators sample_datasource 0
                   (resolved_path sample_collaborators mixed_options
                      \<lparr>path = Some ''a.csv'', changes = False\<rparr>) empty_world)
              = Inr (Some ''x,y'')"
    by code_simp
  have r1: "fst (fetchOrUseCached sample_collaborators sample_datasource 0
                   (resolved_path sample_collaborators mixed_options
                      \<lparr>path = Some ''c.json'', changes = False\<rparr>) empty_world)
              = Inr (Some ''[7]'')"
    by code_simp
  have r2: "fst (fetchOrUseCached sample_collaborators sample_datasource 0
                   (resolved_path sample_collaborators mixed_options
                      \<lparr>path = Some ''a.csv'', changes = True\<rparr>) empty_world)
              = Inr (Some ''x,y'')"
    by code_simp
  have tabs: "\<forall>i < length ?tables.
                fst (fetchOrUseCached sample_collaborators sample_datasource 0
                       (resolved_path sample_collaborators mixed_options
                          (filter truthy_path (targets mixed_options) ! i)) empty_world)
                  = Inr (?tables ! i)"
  proof (intro allI impI)
    fix i assume "i < length ?tables"
    then have "i < 3" by simp
    then have "i = 0 \<or> i = 1 \<or> i = 2" by arith
    then show "fst (fetchOrUseCached sample_collaborators sample_datasource 0
                       (resolved_path sample_collaborators mixed_options
                          (filter truthy_path (targets mixed_options) ! i)) empty_world)
                  = Inr (?tables ! i)"
      unfolding kept using r0 r1 r2 by auto
  qed
  have ch: "\<forall>i < length ?tables.
              changes (filter truthy_path (targets mixed_options) ! i) \<longrightarrow>
              (\<exists>info. processChanges sample_collaborators (?tables ! i) = Inr info)"
    by (simp add: sample_collaborators_def)
  have rhs: "concat (map2 (contribution sample_collaborators)
               (filter truthy_path (targets mixed_options)) ?tables)
             = [TableItem (Some ''x,y''),
                TableItem (Some ''[7]''),
                EntryItem \<lparr>target = ''x'', alias' = ''x'', datapoints = Some [1, 2]\<rparr>,
                EntryItem \<lparr>target = ''y'', alias' = ''y'', datapoints = None\<rparr>]"
    by code_simp
  from query_preserves_target_order [OF sched len tabs ch] show ?thesis by (simp only: rhs)
qed

text \<open>
  C7. The connectivity test is meant never to reject, whatever the backend's
  \<open>list\<close> call settles to. When that call is rejected with \<open>Undefined\<close>, the
  handler that turns a failure into a status record throws while reading
  \<open>cancelled\<close> from the reason, and the promise the test returns is rejected
  with that \<open>TypeError\<close>. On a datasource whose backend is the plain object that
  construction with the type \<open>constructor\<close> installs, the test does not even
  return a promise: the call of the missing \<open>list\<close> throws.
\<close>

theorem testDatasource_rejects_on_undefined_reason:
  "fst (testDatasource (X\<lparr>fs_list := (\<lambda>f p. Inl Undefined)\<rparr>) (this\<lparr>fs := NginxFileSystem s\<rparr>) w)
     = Promise (Inl (TypeError ''Cannot read property cancelled of undefined'')) \<and>
   fst (testDatasource X (this\<lparr>fs := PlainObject s\<rparr>) w)
     = Throws (TypeError ''this.fs.list is not a function'')"
  by (simp add: testDatasource_def testDatasource_catch_def has_methods_def Let_def)

text \<open>
  C8. The cache belongs to the world and not to a datasource object: a table
  that one object has stored is served to any other object without a fetch.
  The write in the callback is unconditional: in every world, also one that
  already holds a table for the path, a parse that returns replaces the entry of
  that path by the new one and touches nothing else. So a call of
  \<open>_fetchOrUseCached\<close> leaves the cache alone or replaces exactly the entry of
  its own path (on a miss that resolves, it installs the new entry over
  whatever entry without a table was there), and in a query the chain that
  completes last decides the entry
  of its resolved path, whatever earlier chains for the same path had stored.
  Neither a call, nor a query, nor the connectivity test removes an entry. The
  empty cache files every entry under the path the entry records, every
  operation keeps it so, and therefore two entries with the same path are one
  and the same entry.
\<close>

theorem cache_shared_one_entry_per_path:
  "(fetchOrUseCached X this1 now1 p w = (Inr (Some tb), w1) \<longrightarrow>
      fetchOrUseCached X this2 now2 p w1 = (Inr (Some tb), w1)) \<and>
   (parse_response X this isAvro res0 = Inr tb0 \<longrightarrow>
      fetched X this p isAvro now res0 w
        = (Inr tb0,
           w\<lparr>cache := (cache w)(p \<mapsto> \<lparr>CachedTable.path = p, timestamp = now, table = tb0\<rparr>)\<rparr>)) \<and>
   (fetchOrUseCached X this now p w = (r, w2) \<longrightarrow>
      (cache w2 = cache w \<or>
       (\<exists>tb'. cache w2 = (cache w)(p \<mapsto> \<lparr>CachedTable.path = p, timestamp = now, table = tb'\<rparr>))) \<and>
      dom (cache w) \<subseteq> dom (cache w2) \<and>
      (cache_keyed w \<longrightarrow> cache_keyed w2)) \<and>
   (query X this schedule options w = (r', w3) \<longrightarrow>
      dom (cache w) \<subseteq> dom (cache w3) \<and> (cache_keyed w \<longrightarrow> cache_keyed w3)) \<and>
   (schedule = earlier @ [(i, stamp)] \<and>
    i < length (filter truthy_path (targets options)) \<and>
    i \<notin> fst ` set earlier \<and>
    req = resolved_path X options (filter truthy_path (targets options) ! i) \<and>
    \<not> (\<exists>t tb1. cache w req = Some t \<and> table t = Some tb1) \<and>
    fs_fetch X (fs this) req (extension req = ''avro'') = Inr res \<and>
    parse_response X this (extension req = ''avro'') res = Inr tb2 \<longrightarrow>
      cache (snd (query X this schedule options w)) req
        = Some \<lparr>CachedTable.path = req, timestamp = stamp, table = tb2\<rparr>) \<and>
   (\<not> (\<exists>t tb1. cache w p = Some t \<and> table t = Some tb1) \<and>
    fetchOrUseCached X this now p w = (Inr tb3, w4) \<longrightarrow>
      cache w4 = (cache w)(p \<mapsto> \<lparr>CachedTable.path = p, timestamp = now, table = tb3\<rparr>)) \<and>
   cache (snd (testDatasource X this w)) = cache w \<and>
   cache_keyed (w\<lparr>cache := Map.empty\<rparr>) \<and>
   (cache_keyed w \<and> cache w k = Some t \<and> cache w k' = Some t' \<and>
    CachedTable.path t = CachedTable.path t' \<longrightarrow> k = k' \<and> t = t')"
proof (intro conjI impI)
  assume a: "fetchOrUseCached X this1 now1 p w = (Inr (Some tb), w1)"
  have "Option.bind (cache w1 p) table = Some tb"
  proof (cases "Option.bind (cache w p) table")
    case None
    obtain res where f: "fs_fetch X (fs this1) p (extension p = ''avro'') = Inr res"
      using a None by (cases "fs_fetch X (fs this1) p (extension p = ''avro'')")
         (auto simp: fetchOrUseCached_def begin_miss)
    then show ?thesis using a None
      by (auto simp: fetchOrUseCached_def begin_miss fetched_def Let_def split: sum.splits)
  next
    case (Some tb0)
    then show ?thesis using a by (auto simp: fetchOrUseCached_def begin_hit)
  qed
  then show "fetchOrUseCached X this2 now2 p w1 = (Inr (Some tb), w1)"
    by (simp add: fetchOrUseCached_def begin_hit)
next
  assume "parse_response X this isAvro res0 = Inr tb0"
  then show "fetched X this p isAvro now res0 w
        = (Inr tb0,
           w\<lparr>cache := (cache w)(p \<mapsto> \<lparr>CachedTable.path = p, timestamp = now, table = tb0\<rparr>)\<rparr>)"
    by (rule fetched_put)
next
  assume a: "fetchOrUseCached X this now p w = (r, w2)"
  from fetchOrUseCached_cache[OF a]
  show put: "cache w2 = cache w \<or>
       (\<exists>tb'. cache w2 = (cache w)(p \<mapsto> \<lparr>CachedTable.path = p, timestamp = now, table = tb'\<rparr>))" .
  show "dom (cache w) \<subseteq> dom (cache w2)" by (rule put_keeps_dom[OF put])
  show "cache_keyed w2" if "cache_keyed w" using put_keeps_keyed[OF put that] .
next
  assume a: "query X this schedule options w = (r', w3)"
  from query_cache[OF a] show "dom (cache w) \<subseteq> dom (cache w3)" by simp
  from query_cache[OF a] show "cache_keyed w3" if "cache_keyed w" using that by simp
next
  assume "schedule = earlier @ [(i, stamp)] \<and>
    i < length (filter truthy_path (targets options)) \<and>
    i \<notin> fst ` set earlier \<and>
    req = resolved_path X options (filter truthy_path (targets options) ! i) \<and>
    \<not> (\<exists>t tb1. cache w req = Some t \<and> table t = Some tb1) \<and>
    fs_fetch X (fs this) req (extension req = ''avro'') = Inr res \<and>
    parse_response X this (extension req = ''avro'') res = Inr tb2"
  then show "cache (snd (query X this schedule options w)) req
        = Some \<lparr>CachedTable.path = req, timestamp = stamp, table = tb2\<rparr>"
    by (intro query_last_write) auto
next
  assume a: "\<not> (\<exists>t tb1. cache w p = Some t \<and> table t = Some tb1) \<and>
    fetchOrUseCached X this now p w = (Inr tb3, w4)"
  then have miss: "Option.bind (cache w p) table = None" by (simp add: miss_iff)
  show "cache w4 = (cache w)(p \<mapsto> \<lparr>CachedTable.path = p, timestamp = now, table = tb3\<rparr>)"
  proof (cases "fs_fetch X (fs this) p (extension p = ''avro'')")
    case (Inl e)
    then show ?thesis using a by (simp add: fetchOrUseCached_def begin_miss[OF miss])
  next
    case (Inr res)
    then have f: "fetched X this p (extension p = ''avro'') now res
                    (w\<lparr>calls := calls w @ [FetchCall (fs this) p (extension p = ''avro'')]\<rparr>)
                  = (Inr tb3, w4)"
      using a by (simp add: fetchOrUseCached_def begin_miss[OF miss])
    then have "parse_response X this (extension p = ''avro'') res = Inr tb3"
      using fetched_pair[OF f] by simp
    from fetched_put[OF this, of p now
           "w\<lparr>calls := calls w @ [FetchCall (fs this) p (extension p = ''avro'')]\<rparr>"] f
    show ?thesis by auto
  qed
next
  show "cache (snd (testDatasource X this w)) = cache w"
    by (simp add: testDatasource_def Let_def)
next
  show "cache_keyed (w\<lparr>cache := Map.empty\<rparr>)" by (simp add: cache_keyed_def)
next
  assume "cache_keyed w \<and> cache w k = Some t \<and> cache w k' = Some t' \<and>
    CachedTable.path t = CachedTable.path t'"
  then show "k = k'" "t = t'" by (auto simp: cache_keyed_def)
qed

theorem cache_shared_one_entry_per_path_witness:
  "fetchOrUseCached sample_collaborators local_datasource 3 ''a.csv''
      (snd (fetchOrUseCached sample_collaborators sample_datasource 9 ''a.csv'' empty_world))
     = (Inr (Some ''x,y''),
        snd (fetchOrUseCached sample_collaborators sample_datasource 9 ''a.csv'' empty_world)) \<and>
   cache (snd (fetched sample_collaborators sample_datasource ''a.csv'' False 8
                 \<lparr>headers = [''content-type'' \<mapsto> ''text/csv''], body = ''x,y''\<rparr> warm_world)) ''a.csv''
     = Some \<lparr>CachedTable.path = ''a.csv'', timestamp = 8, table = Some ''x,y''\<rparr> \<and>
   cache (snd (query sample_collaborators sample_datasource [(1, 10), (0, 11)]
                 twice_options empty_world)) ''a.csv''
     = Some \<lparr>CachedTable.path = ''a.csv'', timestamp = 11, table = Some ''x,y''\<rparr> \<and>
   dom (cache warm_world)
     \<subseteq> dom (cache (snd (fetchOrUseCached sample_collaborators sample_datasource 9 ''b.avro'' warm_world))) \<and>
   dom (cache warm_world)
     \<subseteq> dom (cache (snd (query sample_collaborators sample_datasource [(1, 10), (0, 11)]
                           twice_options warm_world))) \<and>
   cache_keyed warm_world \<and>
   cache_keyed (snd (query sample_collaborators sample_datasource [(1, 10), (0, 11)]
                       twice_options warm_world))"
proof -
  let ?S = sample_collaborators and ?D = sample_datasource
  let ?res = "\<lparr>headers = [''content-type'' \<mapsto> ''text/csv''], body = ''x,y''\<rparr>"
  note whole = cache_shared_one_entry_per_path
  note shared = whole[THEN conjunct1, rule_format]
  note put = whole[THEN conjunct2, THEN conjunct1, rule_format]
  note call = whole[THEN conjunct2, THEN conjunct2, THEN conjunct1, rule_format]
  note asked = whole[THEN conjunct2, THEN conjunct2, THEN conjunct2, THEN conjunct1, rule_format]
  note last = whole[THEN conjunct2, THEN conjunct2, THEN conjunct2, THEN conjunct2,
                    THEN conjunct1, rule_format]
  have v: "fst (fetchOrUseCached ?S ?D 9 ''a.csv'' empty_world) = Inr (Some ''x,y'')"
    by code_simp
  have first: "fetchOrUseCached ?S ?D 9 ''a.csv'' empty_world
                 = (Inr (Some ''x,y''), snd (fetchOrUseCached ?S ?D 9 ''a.csv'' empty_world))"
    using v by (metis prod.collapse)
  have second: "fetchOrUseCached ?S ?D 9 ''b.avro'' warm_world
                  = (fst (fetchOrUseCached ?S ?D 9 ''b.avro'' warm_world),
                     snd (fetchOrUseCached ?S ?D 9 ''b.avro'' warm_world))"
    by simp
  have third: "query ?S ?D [(1, 10), (0, 11)] twice_options warm_world
                 = (fst (query ?S ?D [(1, 10), (0, 11)] twice_options warm_world),
                    snd (query ?S ?D [(1, 10), (0, 11)] twice_options warm_world))"
    by simp
  have keyed: "cache_keyed warm_world"
    by (simp add: cache_keyed_def warm_world_def split: if_splits)
  have "indexOf ''text/csv'' ''json'' = - 1" by code_simp
  then have parsed: "parse_response ?S ?D False ?res = Inr (Some ''x,y'')"
    by (simp add: parse_response_def select_parser_def sample_collaborators_def
        sample_datasource_def)
  have ext: "(extension ''a.csv'' = ''avro'') = False" by code_simp
  have kept: "filter truthy_path (targets twice_options)
                = [\<lparr>path = Some ''a.csv'', changes = False\<rparr>,
                   \<lparr>path = Some ''a.csv'', changes = True\<rparr>]"
    by (simp add: twice_options_def truthy_path_def)
  have req: "''a.csv'' = resolved_path ?S twice_options (filter truthy_path (targets twice_options) ! 0)"
    unfolding kept by (simp add: resolved_path_def sample_collaborators_def)
  have miss: "\<not> (\<exists>t tb1. cache empty_world ''a.csv'' = Some t \<and> table t = Some (tb1 :: string))"
    by (simp add: empty_world_def)
  have fetch: "fs_fetch ?S (fs ?D) ''a.csv'' (extension ''a.csv'' = ''avro'') = Inr ?res"
    by (simp add: sample_collaborators_def sample_fetch_def)
  have parsed': "parse_response ?S ?D (extension ''a.csv'' = ''avro'') ?res = Inr (Some ''x,y'')"
    using parsed by (simp only: ext)
  have sched: "[(1 :: nat, 10 :: nat), (0, 11)] = [(1, 10)] @ [(0, 11)]" by simp
  have fresh: "(0 :: nat) \<notin> fst ` set [(1 :: nat, 10 :: nat)]" by simp
  have i: "0 < length (filter truthy_path (targets twice_options))" unfolding kept by simp
  have a: "fetchOrUseCached ?S local_datasource 3 ''a.csv''
             (snd (fetchOrUseCached ?S ?D 9 ''a.csv'' empty_world))
           = (Inr (Some ''x,y''), snd (fetchOrUseCached ?S ?D 9 ''a.csv'' empty_world))"
    by (rule shared[OF first])
  have "fetched ?S ?D ''a.csv'' False 8 ?res warm_world
          = (Inr (Some ''x,y''),
             warm_world\<lparr>cache := (cache warm_world)(''a.csv'' \<mapsto>
                \<lparr>CachedTable.path = ''a.csv'', timestamp = 8, table = Some ''x,y''\<rparr>)\<rparr>)"
    by (rule put[OF parsed])
  then have b: "cache (snd (fetched ?S ?D ''a.csv'' False 8 ?res warm_world)) ''a.csv''
                  = Some \<lparr>CachedTable.path = ''a.csv'', timestamp = 8, table = Some ''x,y''\<rparr>"
    by simp
  have c: "cache (snd (query ?S ?D [(1, 10), (0, 11)] twice_options empty_world)) ''a.csv''
             = Some \<lparr>CachedTable.path = ''a.csv'', timestamp = 11, table = Some ''x,y''\<rparr>"
    using sched fresh i req miss fetch parsed'
    by (intro last[where earlier = "[(1, 10)]" and i = 0 and res = ?res]) blast
  have d: "dom (cache warm_world)
             \<subseteq> dom (cache (snd (fetchOrUseCached ?S ?D 9 ''b.avro'' warm_world)))"
    using call[OF second] by blast
  have e: "dom (cache warm_world)
             \<subseteq> dom (cache (snd (query ?S ?D [(1, 10), (0, 11)] twice_options warm_world)))"
    and f: "cache_keyed (snd (query ?S ?D [(1, 10), (0, 11)] twice_options warm_world))"
    using asked[OF third] keyed by blast+
  from a b c d e f keyed show ?thesis by blast
qed

text \<open>
  C9. When a call of \<open>_fetchOrUseCached\<close> ends in a rejection, because the fetch
  rejects or because parsing throws, the cache after the call is the cache
  before it: the entry is written only once parsing has returned.
\<close>

theorem failed_resolution_keeps_cache:
  "fst (fetchOrUseCached X this now p w) = Inl e \<Longrightarrow>
   cache (snd (fetchOrUseCached X this now p w)) = cache w"
  by (auto simp: fetchOrUseCached_def fetchOrUseCached_begin_def fetched_def Let_def
           split: option.splits sum.splits)

theorem failed_resolution_keeps_cache_witness:
  "fst (fetchOrUseCached sample_collaborators sample_datasource 7 ''b.avro'' warm_world)
     = Inl (Reason ''FormatError'' False False) \<and>
   fst (fetchOrUseCached sample_collaborators sample_datasource 7 ''none.csv'' warm_world)
     = Inl (Reason ''NotFound'' False False) \<and>
   cache (snd (fetchOrUseCached sample_collaborators sample_datasource 7 ''b.avro'' warm_world))
     = cache warm_world \<and>
   cache (snd (fetchOrUseCached sample_collaborators sample_datasource 7 ''none.csv'' warm_world))
     = cache warm_world"
proof -
  have parse_fails:
    "fst (fetchOrUseCached sample_collaborators sample_datasource 7 ''b.avro'' warm_world)
       = Inl (Reason ''FormatError'' False False)"
    by code_simp
  have fetch_fails:
    "fst (fetchOrUseCached sample_collaborators sample_datasource 7 ''none.csv'' warm_world)
       = Inl (Reason ''NotFound'' False False)"
    by code_simp
  from failed_resolution_keeps_cache [OF parse_fails]
       failed_resolution_keeps_cache [OF fetch_fails] parse_fails fetch_fails
  show ?thesis by blast
qed

text \<open>
  C10. On a miss the backend's \<open>fetch\<close> is called once, for the path itself, and
  its binary flag is true exactly when the normalised extension of the path, as
  the specification describes it, is \<open>avro\<close>.
\<close>

theorem fetch_binary_iff_avro:
  "\<not> (\<exists>t tb. cache w p = Some t \<and> table t = Some tb) \<Longrightarrow>
   calls (snd (fetchOrUseCached X this now p w))
     = calls w @ [FetchCall (fs this) p (normalized_extension p = ''avro'')]"
proof -
  assume "\<not> (\<exists>t tb. cache w p = Some t \<and> table t = Some tb)"
  then have "Option.bind (cache w p) table = None" by (simp add: miss_iff)
  then show ?thesis
    by (simp add: fetchOrUseCached_def begin_miss fetched_calls extension_refines
             split: sum.splits)
qed

theorem fetch_binary_iff_avro_witness:
  "calls (snd (fetchOrUseCached sample_collaborators sample_datasource 7
                 ''data/B.AVRO?v=1.2#top'' empty_world))
     = [FetchCall (fs sample_datasource) ''data/B.AVRO?v=1.2#top'' True] \<and>
   calls (snd (fetchOrUseCached sample_collaborators sample_datasource 7 ''.avro'' empty_world))
     = [FetchCall (fs sample_datasource) ''.avro'' False]"
proof -
  have miss: "\<not> (\<exists>t tb. cache empty_world p = Some t \<and> table t = Some (tb :: string))" for p
    by (simp add: empty_world_def)
  have e1: "normalized_extension ''data/B.AVRO?v=1.2#top'' = ''avro''" by code_simp
  have e2: "normalized_extension ''.avro'' = []" by code_simp
  have c: "calls empty_world = []" by (simp add: empty_world_def)
  from fetch_binary_iff_avro [OF miss, of sample_collaborators sample_datasource 7 "''data/B.AVRO?v=1.2#top''"]
       fetch_binary_iff_avro [OF miss, of sample_collaborators sample_datasource 7 "''.avro''"]
  show ?thesis by (simp add: e1 e2 c)
qed

end
